theory Spec2Isabelle
  imports Main "HOL-Library.Word" "HOL-Library.Char_ord" "HOL-Library.List_Lexorder"
    "HOL-Library.Multiset"
begin

section \<open>Go values and run-time panics\<close>

text \<open>
  Go strings are byte sequences and \<open>len\<close> counts bytes: they are modelled as
  \<^typ>\<open>string\<close>. Go's \<open>int\<close> is modelled as \<^typ>\<open>int\<close> where no overflow can
  occur and as a 64-bit word where a counter is incremented without bound.
  A \<open>time.Duration\<close> is a signed 64-bit count of nanoseconds.
  Every run-time panic and every returned Go error is a value of \<open>error\<close>.
\<close>

datatype error =
    SliceBoundsOutOfRange
  | IndexOutOfRange
  | IntegerDivideByZero
  | NoResourcer string
  | MarshalError
  | ParseError
  | SendError
  | RecvError
  | ContextDone
  | Unimplemented

type_synonym Duration = "64 word"

definition slice_to :: "string \<Rightarrow> int \<Rightarrow> error + string" where
  \<comment> \<open>the slice expression \<open>s[:k]\<close>\<close>
  "slice_to s k =
     (if 0 \<le> k \<and> k \<le> int (length s) then Inr (take (nat k) s)
      else Inl SliceBoundsOutOfRange)"

definition index_at :: "'a list \<Rightarrow> int \<Rightarrow> error + 'a" where
  \<comment> \<open>the index expression \<open>s[n]\<close>\<close>
  "index_at s n =
     (if 0 \<le> n \<and> n < int (length s) then Inr (s ! nat n) else Inl IndexOutOfRange)"

definition quo :: "int \<Rightarrow> int \<Rightarrow> error + int" where
  \<comment> \<open>Go's integer division: panics on zero, truncates towards zero\<close>
  "quo a b =
     (if b = 0 then Inl IntegerDivideByZero
      else if (a < 0) = (b < 0) then Inr (\<bar>a\<bar> div \<bar>b\<bar>)
      else Inr (- (\<bar>a\<bar> div \<bar>b\<bar>)))"

fun Join :: "string list \<Rightarrow> string \<Rightarrow> string" where
  \<comment> \<open>\<open>strings.Join\<close>\<close>
  "Join [] sep = []"
| "Join [x] sep = x"
| "Join (x # y # ys) sep = x @ sep @ Join (y # ys) sep"

fun decimal :: "nat \<Rightarrow> string" where
  "decimal n =
     (if n < 10 then [''0123456789'' ! n]
      else decimal (n div 10) @ [''0123456789'' ! (n mod 10)])"

declare decimal.simps [simp del]

definition FormatInt :: "int \<Rightarrow> string" where
  \<comment> \<open>\<open>strconv.FormatInt(i, 10)\<close>, which is also \<open>strconv.Itoa\<close>\<close>
  "FormatInt i = (if i < 0 then ''-'' @ decimal (nat (- i)) else decimal (nat i))"

section \<open>The name hasher (internal/route/visitor.go, internal/envoy/translator.go)\<close>

text \<open>
  \<open>hashname\<close>, \<open>truncate\<close> and \<open>min\<close> have the same text in both files
  (\<open>truncate\<close> is \<open>truncate_name\<close> here, \<open>min\<close> is \<open>min_go\<close>). The SHA-256
  digest printed with \<open>%x\<close> is a parameter \<open>H\<close>; \<open>hex_digest H\<close> records that it always
  has 64 characters.
\<close>

definition hex_digest :: "(string \<Rightarrow> string) \<Rightarrow> bool" where
  "hex_digest H \<longleftrightarrow> (\<forall>r. length (H r) = 64)"

definition zero_digest :: "string \<Rightarrow> string" where
  \<comment> \<open>a digest function for evaluating the model on names that are never hashed\<close>
  "zero_digest r = replicate 64 CHR ''0''"

definition min_go :: "int \<Rightarrow> int \<Rightarrow> int" where
  "min_go a b = (if a > b then b else a)"

definition truncate_name :: "int \<Rightarrow> string \<Rightarrow> string \<Rightarrow> error + string" where
  "truncate_name l s suffix =
     (if l \<ge> int (length s) then Inr s
      else if l \<le> int (length suffix) then slice_to suffix (min_go l (int (length suffix)))
      else (case slice_to s (l - int (length suffix) - 1) of
              Inl e \<Rightarrow> Inl e
            | Inr p \<Rightarrow> Inr (p @ ''-'' @ suffix)))"

definition shorthash :: int where
  "shorthash = 6"

text \<open>
  The loop \<open>for n := len(s) - 1; n >= 0; n--\<close>: the counter of \<open>hashname_loop\<close> is
  \<open>n + 1\<close>. The result \<open>None\<close> is the loop running to its end.
\<close>

fun hashname_loop :: "int \<Rightarrow> string \<Rightarrow> string list \<Rightarrow> nat \<Rightarrow> error + string option" where
  "hashname_loop l hash s 0 = Inr None"
| "hashname_loop l hash s (Suc n) =
     (case quo l (int (length s)) of
        Inl e \<Rightarrow> Inl e
      | Inr q \<Rightarrow>
         (case index_at s (int n) of
            Inl e \<Rightarrow> Inl e
          | Inr sn \<Rightarrow>
             (case slice_to hash shorthash of
                Inl e \<Rightarrow> Inl e
              | Inr short \<Rightarrow>
                 (case truncate_name q sn short of
                    Inl e \<Rightarrow> Inl e
                  | Inr t \<Rightarrow>
                     (let s' = s[n := t]; r = Join s' ''/''
                      in if l > int (length r) then Inr (Some r)
                         else hashname_loop l hash s' n)))))"

definition hashname :: "(string \<Rightarrow> string) \<Rightarrow> int \<Rightarrow> string list \<Rightarrow> error + string" where
  "hashname H l s =
     (let r = Join s ''/''
      in if l > int (length r) then Inr r
         else (let hash = H r
               in case hashname_loop l hash s (length s) of
                    Inl e \<Rightarrow> Inl e
                  | Inr (Some r') \<Rightarrow> Inr r'
                  | Inr None \<Rightarrow> slice_to hash (min_go (int (length hash)) l)))"

subsection \<open>The reference algorithm of the specification\<close>

text \<open>
  These three definitions follow the words of section 4.1 of the specification, with
  \<open>L\<close> a length (a natural number), to be compared with \<open>hashname\<close> above.
\<close>

definition truncate_spec :: "nat \<Rightarrow> string \<Rightarrow> string \<Rightarrow> string" where
  "truncate_spec l s x =
     (if l \<ge> length s then s
      else if l \<le> length x then take l x
      else take (l - length x - 1) s @ ''-'' @ x)"

fun hashname_spec_from :: "nat \<Rightarrow> string \<Rightarrow> string list \<Rightarrow> nat \<Rightarrow> string" where
  "hashname_spec_from L h s 0 = take L h"
| "hashname_spec_from L h s (Suc i) =
     (let s' = s[i := truncate_spec (L div length s) (s ! i) (take 6 h)];
          r = Join s' ''/''
      in if length r < L then r else hashname_spec_from L h s' i)"

definition hashname_spec :: "(string \<Rightarrow> string) \<Rightarrow> nat \<Rightarrow> string list \<Rightarrow> string" where
  "hashname_spec H L s =
     (let r = Join s ''/''
      in if length r < L then r else hashname_spec_from L (H r) s (length s))"

section \<open>The route visitor (internal/route/visitor.go)\<close>

text \<open>
  The messages of the Envoy API as far as the visitor fills them in. A
  \<open>RouteMatch\<close> carries one path specifier; the visitor only builds prefix matches, the
  other two kinds are what the type assertion in \<open>Less\<close> can fail on.
\<close>

datatype PathSpecifier =
    RouteMatch_Prefix string
  | RouteMatch_Path string
  | RouteMatch_Regex string

record RouteAction =
  Cluster :: string
  UseWebsocket :: "bool option"
  Timeout :: "Duration option"

datatype RouteActionKind =
    Route_Route RouteAction
  | Route_Redirect bool

record route_Route =
  Match :: PathSpecifier
  Action :: RouteActionKind

record route_VirtualHost =
  Name :: string
  Domains :: "string list"
  Routes :: "route_Route list"

record RouteConfigurations =
  ingress_http :: "route_VirtualHost list"
  ingress_https :: "route_VirtualHost list"

text \<open>
  The vertices of package \<open>dag\<close> as the visitor reads them: a virtual host has a
  host name and children, a route has a prefix, the websocket flag, the timeout, the
  HTTPS upgrade flag and children, a service has a namespace, a name and a port. The
  type switches of the visitor ignore every child of another kind.
\<close>

datatype Vertex =
    dag_VirtualHost string "Vertex list"
  | dag_SecureVirtualHost string "Vertex list"
  | dag_Route string bool Duration bool "Vertex list"
  | dag_Service string string int
  | dag_Secret string string

definition prefixmatch :: "string \<Rightarrow> PathSpecifier" where
  "prefixmatch prefix = RouteMatch_Prefix prefix"

definition actionroute ::
  "(string \<Rightarrow> string) \<Rightarrow> string \<Rightarrow> string \<Rightarrow> int \<Rightarrow> bool \<Rightarrow> Duration \<Rightarrow> error + RouteAction" where
  "actionroute H namespace name port ws timeout =
     (case hashname H 60 [namespace, name, FormatInt port] of
        Inl e \<Rightarrow> Inl e
      | Inr cluster \<Rightarrow>
         (let rr = \<lparr>Cluster = cluster, UseWebsocket = None, Timeout = None\<rparr>;
              rr = (if ws then rr\<lparr>UseWebsocket := Some ws\<rparr> else rr)
          in Inr (if timeout = 0 then rr
                  else if timeout = - 1 then rr\<lparr>Timeout := Some 0\<rparr>
                  else rr\<lparr>Timeout := Some timeout\<rparr>)))"

definition longestRouteFirst_Less :: "route_Route \<Rightarrow> route_Route \<Rightarrow> bool" where
  "longestRouteFirst_Less x y =
     (case Match x of
        RouteMatch_Prefix a \<Rightarrow>
          (case Match y of RouteMatch_Prefix b \<Rightarrow> a < b | _ \<Rightarrow> False)
      | _ \<Rightarrow> False)"

definition Reverse :: "('a \<Rightarrow> 'a \<Rightarrow> bool) \<Rightarrow> 'a \<Rightarrow> 'a \<Rightarrow> bool" where
  \<comment> \<open>\<open>sort.Reverse\<close>: \<open>Less(i, j)\<close> of the result is \<open>Less(j, i)\<close> of the argument\<close>
  "Reverse lt x y = lt y x"

text \<open>
  \<open>sort.Stable\<close> belongs to the Go standard library. It is modelled by its contract, a
  stable sort by \<open>Less\<close>: an element is placed after the elements that \<open>Less\<close> puts
  before it and before every other element that followed it in the input.
\<close>

fun insert_stable :: "('a \<Rightarrow> 'a \<Rightarrow> bool) \<Rightarrow> 'a \<Rightarrow> 'a list \<Rightarrow> 'a list" where
  "insert_stable lt x [] = [x]"
| "insert_stable lt x (y # ys) =
     (if lt y x then y # insert_stable lt x ys else x # y # ys)"

definition Stable :: "('a \<Rightarrow> 'a \<Rightarrow> bool) \<Rightarrow> 'a list \<Rightarrow> 'a list" where
  "Stable lt xs = foldr (insert_stable lt) xs []"

fun service_of :: "Vertex \<Rightarrow> (string \<times> string \<times> int) option" where
  "service_of (dag_Service namespace name port) = Some (namespace, name, port)"
| "service_of _ = None"

text \<open>
  The two closures passed to \<open>vh.Visit\<close>: the result \<open>None\<close> is the closure returning
  without appending a route.
\<close>

fun visit_http_route :: "(string \<Rightarrow> string) \<Rightarrow> Vertex \<Rightarrow> error + route_Route option" where
  "visit_http_route H (dag_Route prefix ws timeout upgrade children) =
     (case List.map_filter service_of children of
        [] \<Rightarrow> Inr None
      | (namespace, name, port) # _ \<Rightarrow>
         (case actionroute H namespace name port ws timeout of
            Inl e \<Rightarrow> Inl e
          | Inr a \<Rightarrow>
             (let rr = \<lparr>Match = prefixmatch prefix, Action = Route_Route a\<rparr>
              in Inr (Some (if upgrade then rr\<lparr>Action := Route_Redirect True\<rparr> else rr)))))"
| "visit_http_route H _ = Inr None"

fun visit_https_route :: "(string \<Rightarrow> string) \<Rightarrow> Vertex \<Rightarrow> error + route_Route option" where
  "visit_https_route H (dag_Route prefix ws timeout upgrade children) =
     (case List.map_filter service_of children of
        [] \<Rightarrow> Inr None
      | (namespace, name, port) # _ \<Rightarrow>
         (case actionroute H namespace name port ws timeout of
            Inl e \<Rightarrow> Inl e
          | Inr a \<Rightarrow> Inr (Some \<lparr>Match = prefixmatch prefix, Action = Route_Route a\<rparr>)))"
| "visit_https_route H _ = Inr None"

fun visit_children ::
  "(Vertex \<Rightarrow> error + route_Route option) \<Rightarrow> route_Route list \<Rightarrow> Vertex list
     \<Rightarrow> error + route_Route list" where
  \<comment> \<open>\<open>vh.Visit(f)\<close>, with the routes appended so far\<close>
  "visit_children f routes [] = Inr routes"
| "visit_children f routes (r # rs) =
     (case f r of
        Inl e \<Rightarrow> Inl e
      | Inr None \<Rightarrow> visit_children f routes rs
      | Inr (Some rr) \<Rightarrow> visit_children f (routes @ [rr]) rs)"

fun visit_root ::
  "(string \<Rightarrow> string) \<Rightarrow> RouteConfigurations \<Rightarrow> Vertex \<Rightarrow> error + RouteConfigurations" where
  "visit_root H m (dag_VirtualHost hostname children) =
     (let domains = [hostname] @ (if hostname \<noteq> ''*'' then [hostname @ '':80''] else [])
      in case hashname H 60 [hostname] of
           Inl e \<Rightarrow> Inl e
         | Inr name \<Rightarrow>
            (case visit_children (visit_http_route H) [] children of
               Inl e \<Rightarrow> Inl e
             | Inr routes \<Rightarrow>
                if length routes < 1 then Inr m
                else Inr (m\<lparr>ingress_http := ingress_http m @
                       [\<lparr>Name = name, Domains = domains,
                         Routes = Stable (Reverse longestRouteFirst_Less) routes\<rparr>]\<rparr>)))"
| "visit_root H m (dag_SecureVirtualHost hostname children) =
     (let domains = [hostname] @ (if hostname \<noteq> ''*'' then [hostname @ '':443''] else [])
      in case hashname H 60 [hostname] of
           Inl e \<Rightarrow> Inl e
         | Inr name \<Rightarrow>
            (case visit_children (visit_https_route H) [] children of
               Inl e \<Rightarrow> Inl e
             | Inr routes \<Rightarrow>
                if length routes < 1 then Inr m
                else Inr (m\<lparr>ingress_https := ingress_https m @
                       [\<lparr>Name = name, Domains = domains,
                         Routes = Stable (Reverse longestRouteFirst_Less) routes\<rparr>]\<rparr>)))"
| "visit_root H m _ = Inr m"



subsection \<open>Reading the visitor's input and output\<close>



fun VirtualHost_children :: "Vertex \<Rightarrow> Vertex list option" where
  "VirtualHost_children (dag_VirtualHost hostname children) = Some children"
| "VirtualHost_children _ = None"

fun SecureVirtualHost_children :: "Vertex \<Rightarrow> Vertex list option" where
  "SecureVirtualHost_children (dag_SecureVirtualHost hostname children) = Some children"
| "SecureVirtualHost_children _ = None"


section \<open>The resource caches\<close>

text \<open>
  \<open>clusterCache\<close>, \<open>clusterLoadAssignmentCache\<close>, \<open>listenerCache\<close> and
  \<open>virtualHostCache\<close> have the same \<open>Values\<close>, \<open>Add\<close> and \<open>Remove\<close> up to the type of the
  entries and the field they are ordered by (\<open>Name\<close> or \<open>ClusterName\<close>), which is the
  parameter \<open>name\<close>. The state of a cache is its slice \<open>values\<close>; the mutex makes each
  operation atomic.

  \<open>sort.Search\<close> is the binary search of the Go standard library.
  \<open>sort.Sort\<close> is modelled by its contract, a sort by \<open>Less\<close>; it is not stable, and the
  order it gives to entries of the same name is left open by Go (the caches never hold
  two entries of one name).
\<close>

function Search_loop :: "nat \<Rightarrow> nat \<Rightarrow> (nat \<Rightarrow> bool) \<Rightarrow> nat" where
  "Search_loop i j f =
     (if i < j then
        (let h = (i + j) div 2
         in if \<not> f h then Search_loop (h + 1) j f else Search_loop i h f)
      else i)"
  by pat_completeness auto
termination
  by (relation "measure (\<lambda>(i, j, f). j - i)") auto

declare Search_loop.simps [simp del]

definition Search :: "nat \<Rightarrow> (nat \<Rightarrow> bool) \<Rightarrow> nat" where
  "Search n f = Search_loop 0 n f"

definition Sort :: "('a \<Rightarrow> string) \<Rightarrow> 'a list \<Rightarrow> 'a list" where
  "Sort name vs = sort_key name vs"

definition Values :: "'a list \<Rightarrow> 'a list" where
  \<comment> \<open>a copy of the slice\<close>
  "Values vs = vs"

definition Add :: "('a \<Rightarrow> string) \<Rightarrow> 'a \<Rightarrow> 'a list \<Rightarrow> 'a list" where
  "Add name c vs =
     (let vs1 = Sort name vs;
          i = Search (length vs1) (\<lambda>i. name (vs1 ! i) \<ge> name c)
      in if i < length vs1 \<and> name (vs1 ! i) = name c then vs1[i := c]
         else Sort name (vs1 @ [c]))"

definition Remove_entry :: "('a \<Rightarrow> string) \<Rightarrow> string \<Rightarrow> 'a list \<Rightarrow> 'a list" where
  \<comment> \<open>\<open>Remove\<close> of the caches\<close>
  "Remove_entry name n vs =
     (let vs1 = Sort name vs;
          i = Search (length vs1) (\<lambda>i. name (vs1 ! i) \<ge> n)
      in if i < length vs1 \<and> name (vs1 ! i) = n then take i vs1 @ drop (i + 1) vs1
         else vs1)"

text \<open>
  The states a cache can be in: it starts empty and changes by \<open>Add\<close> and \<open>Remove\<close>
  only.
\<close>

inductive cache_state :: "('a \<Rightarrow> string) \<Rightarrow> 'a list \<Rightarrow> bool" for name :: "'a \<Rightarrow> string" where
  cache_empty: "cache_state name []"
| cache_Add: "cache_state name vs \<Longrightarrow> cache_state name (Add name c vs)"
| cache_Remove: "cache_state name vs \<Longrightarrow> cache_state name (Remove_entry name n vs)"

section \<open>The discovery server\<close>

text \<open>
  The sources hold three generations of the discovery server: the per-type handlers
  with their own loops (\<open>CDS.StreamClusters\<close> and its siblings, whose \<open>Fetch\<close> calls are
  unimplemented), the shared \<open>fetch\<close> and \<open>stream\<close> of internal/grpc/grpc.go, and
  \<open>grpcServer.fetch\<close> and \<open>grpcServer.stream\<close> over a table of resourcers. All three are
  modelled. \<open>proto.Marshal\<close> is a parameter that returns an error or the bytes.
\<close>

record Any =
  Any_TypeUrl :: string
  Any_Value :: string

record DiscoveryResponse =
  VersionInfo :: string
  Resources :: "Any list"
  TypeUrl :: string
  Nonce :: string

record DiscoveryRequest =
  Req_VersionInfo :: string
  Req_ResourceNames :: "string list"
  Req_TypeUrl :: string
  Req_ResponseNonce :: string

definition typePrefix :: string where
  "typePrefix = ''type.googleapis.com/envoy.api.v2.''"

definition EndpointType :: string where
  "EndpointType = typePrefix @ ''ClusterLoadAssignment''"

definition ClusterType :: string where
  "ClusterType = typePrefix @ ''Cluster''"

definition RouteType :: string where
  "RouteType = typePrefix @ ''RouteConfiguration''"

definition ListenerType :: string where
  "ListenerType = typePrefix @ ''Listener''"

text \<open>
  Modelled from the spec: the version counter of a cache. The type \<open>Cond\<close> that keeps
  it and implements \<open>Register\<close> is not among the sources; by sections 3 and 4.4 of the
  specification each cache holds a non-negative integer that advances whenever its
  contents change, and a registered waiter receives the current version on its channel.
\<close>

record 'm Cache =
  cache_values :: "'m list"
  cache_version :: int

text \<open>
  What a stream meets at its \<open>select\<close>: the context is done, or the channel delivers
  a version; then the state \<open>w\<close> that the caches have when the handler reads them and
  whether \<open>Send\<close> succeeds. A list of events is a run of the stream up to some moment;
  at its end the stream is blocked in \<open>select\<close>. The result of a run is the list of
  responses sent and the error the handler returned, if it has returned.
\<close>

datatype 'w event = Done | Notified int 'w bool

fun marshal_each :: "('m \<Rightarrow> error + string) \<Rightarrow> string \<Rightarrow> 'm list \<Rightarrow> error + Any list" where
  \<comment> \<open>the loop \<open>for i := range v\<close> that marshals each entry and returns at the first error\<close>
  "marshal_each marshal typeurl [] = Inr []"
| "marshal_each marshal typeurl (m # ms) =
     (case marshal m of
        Inl err \<Rightarrow> Inl err
      | Inr data \<Rightarrow>
         (case marshal_each marshal typeurl ms of
            Inl err \<Rightarrow> Inl err
          | Inr resources \<Rightarrow> Inr (\<lparr>Any_TypeUrl = typeurl, Any_Value = data\<rparr> # resources)))"

subsection \<open>The per-type handlers (the file of \<open>CDS.StreamClusters\<close>)\<close>

definition CDS_FetchClusters :: "DiscoveryRequest \<Rightarrow> DiscoveryResponse option \<times> error option" where
  "CDS_FetchClusters req = (None, Some Unimplemented)"

definition EDS_FetchEndpoints :: "DiscoveryRequest \<Rightarrow> DiscoveryResponse option \<times> error option" where
  "EDS_FetchEndpoints req = (None, Some Unimplemented)"

definition LDS_FetchListeners :: "DiscoveryRequest \<Rightarrow> DiscoveryResponse option \<times> error option" where
  "LDS_FetchListeners req = (None, Some Unimplemented)"

definition RDS_FetchRoutes :: "DiscoveryRequest \<Rightarrow> DiscoveryResponse option \<times> error option" where
  "RDS_FetchRoutes req = (None, Some Unimplemented)"

text \<open>
  \<open>CDS.StreamClusters\<close>, \<open>EDS.StreamEndpoints\<close> and \<open>RDS.StreamRoutes\<close> are one loop up
  to the type URL and the way the resources are built from the cache, which is the
  parameter \<open>build\<close>. \<open>last\<close> and \<open>nonce\<close> are the loop's variables; \<open>nonce\<close> is a Go
  \<open>int\<close> that is incremented, a 64-bit word read as signed.
\<close>

fun stream_loop ::
  "('w \<Rightarrow> error + Any list) \<Rightarrow> string \<Rightarrow> int \<Rightarrow> 64 word \<Rightarrow> 'w event list
     \<Rightarrow> DiscoveryResponse list \<times> error option" where
  "stream_loop build typeurl lastv nonce [] = ([], None)"
| "stream_loop build typeurl lastv nonce (Done # evs) = ([], Some ContextDone)"
| "stream_loop build typeurl lastv nonce (Notified v w sent # evs) =
     (case build w of
        Inl err \<Rightarrow> ([], Some err)
      | Inr resources \<Rightarrow>
         (let nonce' = nonce + 1;
              out = \<lparr>VersionInfo = FormatInt v, Resources = resources, TypeUrl = typeurl,
                     Nonce = FormatInt (sint nonce')\<rparr>
          in if \<not> sent then ([], Some SendError)
             else (case stream_loop build typeurl v nonce' evs of
                     (outs, res) \<Rightarrow> (out # outs, res))))"

definition CDS_StreamClusters ::
  "('m \<Rightarrow> error + string) \<Rightarrow> 'm Cache event list \<Rightarrow> DiscoveryResponse list \<times> error option" where
  "CDS_StreamClusters marshal evs =
     stream_loop (\<lambda>w. marshal_each marshal ClusterType (cache_values w)) ClusterType 0 0 evs"

definition EDS_StreamEndpoints ::
  "('m \<Rightarrow> error + string) \<Rightarrow> 'm Cache event list \<Rightarrow> DiscoveryResponse list \<times> error option" where
  "EDS_StreamEndpoints marshal evs =
     stream_loop (\<lambda>w. marshal_each marshal EndpointType (cache_values w)) EndpointType 0 0 evs"

definition RDS_StreamRoutes ::
  "(string \<times> 'm list \<Rightarrow> error + string) \<Rightarrow> 'm Cache event list
     \<Rightarrow> DiscoveryResponse list \<times> error option" where
  "RDS_StreamRoutes marshal evs =
     stream_loop (\<lambda>w. marshal_each marshal RouteType [(''ingress_http'', cache_values w)])
       RouteType 0 0 evs"

text \<open>
  \<open>LDS.StreamListeners\<close> sends the listeners once, with nonce 1 and version 0, and
  then waits for the context to be done. Its run is the state of the cache, whether
  \<open>Send\<close> succeeds and whether the context is done yet.
\<close>

definition LDS_StreamListeners ::
  "('m \<Rightarrow> error + string) \<Rightarrow> 'm Cache \<Rightarrow> bool \<Rightarrow> bool \<Rightarrow> DiscoveryResponse list \<times> error option" where
  "LDS_StreamListeners marshal w sent done =
     (let nonce = (0 :: 64 word) + 1; version = (0 :: 64 word)
      in case marshal_each marshal ListenerType (cache_values w) of
           Inl err \<Rightarrow> ([], Some err)
         | Inr resources \<Rightarrow>
            (let out = \<lparr>VersionInfo = FormatInt (sint version), Resources = resources,
                        TypeUrl = ListenerType, Nonce = FormatInt (sint nonce)\<rparr>
             in if \<not> sent then ([], Some SendError)
                else ([out], if done then Some ContextDone else None)))"

subsection \<open>The shared \<open>fetch\<close> and \<open>stream\<close> (internal/grpc/grpc.go)\<close>

text \<open>
  A resourcer is the interface with the methods \<open>Resources\<close> and \<open>TypeURL\<close>; its
  \<open>Resources\<close> reads the caches, whose state is the argument.
\<close>

record 'w resourcer =
  resourcer_Resources :: "'w \<Rightarrow> error + Any list"
  TypeURL :: string

definition fetch ::
  "'w resourcer \<Rightarrow> int \<Rightarrow> 64 word \<Rightarrow> 'w \<Rightarrow> DiscoveryResponse \<times> error option" where
  "fetch r version nonce w =
     (case resourcer_Resources r w of
        Inl err \<Rightarrow>
          (\<lparr>VersionInfo = FormatInt version, Resources = [],
            TypeUrl = TypeURL r, Nonce = FormatInt (sint nonce)\<rparr>, Some err)
      | Inr resources \<Rightarrow>
          (\<lparr>VersionInfo = FormatInt version, Resources = resources,
            TypeUrl = TypeURL r, Nonce = FormatInt (sint nonce)\<rparr>, None))"

definition FetchClusters :: "'w resourcer \<Rightarrow> 'w \<Rightarrow> DiscoveryResponse \<times> error option" where
  \<comment> \<open>\<open>CDS.FetchClusters\<close>; \<open>FetchEndpoints\<close>, \<open>FetchListeners\<close> and \<open>FetchRoutes\<close> read the same\<close>
  "FetchClusters c w = fetch c 0 0 w"

text \<open>
  \<open>stream\<close> sets \<open>last\<close> and \<open>nonce\<close> to 0 and loops; \<open>stream_from\<close> is the loop
  from given values of the two variables.
\<close>

fun stream_from ::
  "'w resourcer \<Rightarrow> int \<Rightarrow> 64 word \<Rightarrow> 'w event list
     \<Rightarrow> DiscoveryResponse list \<times> error option" where
  "stream_from n lastv nonce [] = ([], None)"
| "stream_from n lastv nonce (Done # evs) = ([], Some ContextDone)"
| "stream_from n lastv nonce (Notified v w sent # evs) =
     (case fetch n v nonce w of
        (out, Some err) \<Rightarrow> ([], Some err)
      | (out, None) \<Rightarrow>
          if \<not> sent then ([], Some SendError)
          else (case stream_from n v (nonce + 1) evs of
                  (outs, res) \<Rightarrow> (out # outs, res)))"

definition stream ::
  "'w resourcer \<Rightarrow> 'w event list \<Rightarrow> DiscoveryResponse list \<times> error option" where
  "stream n evs = stream_from n 0 0 evs"

subsection \<open>\<open>grpcServer.fetch\<close> and \<open>grpcServer.stream\<close> (the file of \<open>grpcServer\<close>)\<close>

record 'w grpcServer =
  count :: "64 word"
  resources :: "string \<rightharpoonup> 'w resourcer"

definition grpcServer_fetch ::
  "'w grpcServer \<Rightarrow> 'w \<Rightarrow> DiscoveryRequest
     \<Rightarrow> 'w grpcServer \<times> DiscoveryResponse option \<times> error option" where
  "grpcServer_fetch s w req =
     (let s' = s\<lparr>count := count s + 1\<rparr>
      in case resources s (Req_TypeUrl req) of
           None \<Rightarrow> (s', None, Some (NoResourcer (Req_TypeUrl req)))
         | Some r \<Rightarrow>
            (case resourcer_Resources r w of
               Inl err \<Rightarrow>
                 (s', Some \<lparr>VersionInfo = ''0'', Resources = [], TypeUrl = TypeURL r,
                           Nonce = ''0''\<rparr>, Some err)
             | Inr rs \<Rightarrow>
                 (s', Some \<lparr>VersionInfo = ''0'', Resources = rs, TypeUrl = TypeURL r,
                           Nonce = ''0''\<rparr>, None)))"

text \<open>
  Each turn of \<open>grpcServer.stream\<close> first receives a request: \<open>Recv\<close> fails, or it
  delivers a request and the turn goes on to the \<open>select\<close>.
\<close>

datatype 'w turn = RecvFailed | Received DiscoveryRequest "'w event"

fun stream_turns ::
  "'w grpcServer \<Rightarrow> int \<Rightarrow> 'w turn list \<Rightarrow> DiscoveryResponse list \<times> error option" where
  "stream_turns s lastv [] = ([], None)"
| "stream_turns s lastv (RecvFailed # ts) = ([], Some RecvError)"
| "stream_turns s lastv (Received req ev # ts) =
     (case resources s (Req_TypeUrl req) of
        None \<Rightarrow> ([], Some (NoResourcer (Req_TypeUrl req)))
      | Some r \<Rightarrow>
         (case ev of
            Done \<Rightarrow> ([], Some ContextDone)
          | Notified v w sent \<Rightarrow>
             (case resourcer_Resources r w of
                Inl err \<Rightarrow> ([], Some err)
              | Inr rs \<Rightarrow>
                 (let resp = \<lparr>VersionInfo = ''0'', Resources = rs, TypeUrl = TypeURL r,
                               Nonce = ''0''\<rparr>
                  in if \<not> sent then ([], Some SendError)
                     else (case stream_turns s v ts of
                             (outs, res) \<Rightarrow> (resp # outs, res))))))"

definition grpcServer_stream ::
  "'w grpcServer \<Rightarrow> 'w turn list
     \<Rightarrow> 'w grpcServer \<times> DiscoveryResponse list \<times> error option" where
  "grpcServer_stream s ts = (s\<lparr>count := count s + 1\<rparr>, stream_turns s 0 ts)"

text \<open>
  The resourcers of internal/grpc/resources.go: \<open>CDS\<close>, \<open>EDS\<close> and \<open>LDS\<close> marshal the
  entries of their cache in the order of their names (\<open>Values\<close> sorts a copy with
  \<open>sort.Stable\<close>); they differ in the type URL and in the field that holds the name.
\<close>

definition cache_resourcer ::
  "('m \<Rightarrow> error + string) \<Rightarrow> ('m \<Rightarrow> string) \<Rightarrow> string \<Rightarrow> 'm Cache resourcer" where
  "cache_resourcer marshal name typeurl =
     \<lparr>resourcer_Resources =
        (\<lambda>w. marshal_each marshal typeurl (Stable (\<lambda>a b. name a < name b) (cache_values w))),
      TypeURL = typeurl\<rparr>"

definition CDS :: "('m \<Rightarrow> error + string) \<Rightarrow> ('m \<Rightarrow> string) \<Rightarrow> 'm Cache resourcer" where
  "CDS marshal name = cache_resourcer marshal name ClusterType"

definition EDS :: "('m \<Rightarrow> error + string) \<Rightarrow> ('m \<Rightarrow> string) \<Rightarrow> 'm Cache resourcer" where
  "EDS marshal name = cache_resourcer marshal name EndpointType"

definition LDS :: "('m \<Rightarrow> error + string) \<Rightarrow> ('m \<Rightarrow> string) \<Rightarrow> 'm Cache resourcer" where
  "LDS marshal name = cache_resourcer marshal name ListenerType"

text \<open>
  \<open>RDS\<close> reads the two virtual host caches and marshals two route configurations,
  \<open>ingress_http\<close> and \<open>ingress_https\<close>, each a name with its virtual hosts in the order
  of their names.
\<close>

definition RDS ::
  "(string \<times> 'm list \<Rightarrow> error + string) \<Rightarrow> ('m \<Rightarrow> string) \<Rightarrow> ('m Cache \<times> 'm Cache) resourcer" where
  "RDS marshal name =
     \<lparr>resourcer_Resources =
        (\<lambda>w. marshal_each marshal RouteType
               [(''ingress_http'', Stable (\<lambda>a b. name a < name b) (cache_values (fst w))),
                (''ingress_https'', Stable (\<lambda>a b. name a < name b) (cache_values (snd w)))]),
      TypeURL = RouteType\<rparr>"

section \<open>The ingress translator (internal/envoy/translator.go)\<close>

text \<open>
  The Ingress object as \<open>addIngress\<close> reads it. A service port is a number or a name
  (\<open>intstr.IntOrString\<close>). The \<open>Add\<close> of the translator's virtual host cache is a
  parameter acting on the state \<open>c\<close> of that cache; logging is left out.
\<close>

datatype IntOrString = IntVal int | StrVal string

fun IntOrString_String :: "IntOrString \<Rightarrow> string" where
  "IntOrString_String (StrVal s) = s"
| "IntOrString_String (IntVal i) = FormatInt i"

record IngressBackend =
  ServiceName :: string
  ServicePort :: IntOrString

record HTTPIngressPath =
  Path :: string
  Backend :: IngressBackend

record IngressRule =
  Host :: string
  HTTP :: "HTTPIngressPath list option"

record IngressTLS =
  Hosts :: "string list"
  SecretName :: string

record IngressObject =
  ing_Namespace :: string
  ing_Name :: string
  ing_Annotations :: "string \<rightharpoonup> string"
  Spec_Backend :: "IngressBackend option"
  Spec_TLS :: "IngressTLS list"
  Spec_Rules :: "IngressRule list"

fun IndexAny_from :: "nat \<Rightarrow> string \<Rightarrow> string \<Rightarrow> int" where
  "IndexAny_from k [] chars = - 1"
| "IndexAny_from k (c # s) chars =
     (if c \<in> set chars then int k else IndexAny_from (Suc k) s chars)"

definition IndexAny :: "string \<Rightarrow> string \<Rightarrow> int" where
  \<comment> \<open>\<open>strings.IndexAny\<close>: the index of the first byte of \<open>s\<close> that is in \<open>chars\<close>, or -1\<close>
  "IndexAny s chars = IndexAny_from 0 s chars"

definition regexmatch :: "string \<Rightarrow> PathSpecifier" where
  "regexmatch regex = RouteMatch_Regex regex"

definition clusteraction :: "string \<Rightarrow> RouteActionKind" where
  "clusteraction cluster =
     Route_Route \<lparr>Cluster = cluster, UseWebsocket = None, Timeout = None\<rparr>"

definition pathToRouteMatch :: "HTTPIngressPath \<Rightarrow> PathSpecifier" where
  "pathToRouteMatch p =
     (if Path p = [] then prefixmatch ''/''
      else if IndexAny (Path p) (''[(*'' @ [CHR 0x5C]) = - 1 then prefixmatch (Path p)
      else regexmatch (Path p))"

definition ingressBackendToClusterName ::
  "(string \<Rightarrow> string) \<Rightarrow> IngressObject \<Rightarrow> IngressBackend \<Rightarrow> error + string" where
  "ingressBackendToClusterName H i b =
     hashname H 60 [ing_Namespace i, ServiceName b, IntOrString_String (ServicePort b)]"

fun path_routes ::
  "(string \<Rightarrow> string) \<Rightarrow> IngressObject \<Rightarrow> HTTPIngressPath list \<Rightarrow> error + route_Route list" where
  \<comment> \<open>the loop over \<open>rule.IngressRuleValue.HTTP.Paths\<close>\<close>
  "path_routes H i [] = Inr []"
| "path_routes H i (p # ps) =
     (let m = pathToRouteMatch p
      in case ingressBackendToClusterName H i (Backend p) of
           Inl e \<Rightarrow> Inl e
         | Inr cl \<Rightarrow>
            (case path_routes H i ps of
               Inl e \<Rightarrow> Inl e
             | Inr routes \<Rightarrow> Inr (\<lparr>Match = m, Action = clusteraction cl\<rparr> # routes)))"

fun addIngress_rules ::
  "(string \<Rightarrow> string) \<Rightarrow> (route_VirtualHost \<Rightarrow> 'c \<Rightarrow> 'c) \<Rightarrow> IngressObject \<Rightarrow> IngressRule list
     \<Rightarrow> 'c \<Rightarrow> error + 'c" where
  \<comment> \<open>the loop over \<open>i.Spec.Rules\<close>, which returns at a rule without HTTP paths\<close>
  "addIngress_rules H add i [] c = Inr c"
| "addIngress_rules H add i (rule # rules) c =
     (case hashname H 60 [ing_Namespace i, ing_Name i, Host rule] of
        Inl e \<Rightarrow> Inl e
      | Inr name \<Rightarrow>
         (case HTTP rule of
            None \<Rightarrow> Inr c
          | Some paths \<Rightarrow>
             (case path_routes H i paths of
                Inl e \<Rightarrow> Inl e
              | Inr routes \<Rightarrow>
                 addIngress_rules H add i rules
                   (add \<lparr>Name = name, Domains = [Host rule], Routes = routes\<rparr> c))))"

definition addIngress_admitted ::
  "(string \<Rightarrow> string) \<Rightarrow> (route_VirtualHost \<Rightarrow> 'c \<Rightarrow> 'c) \<Rightarrow> IngressObject \<Rightarrow> 'c \<Rightarrow> error + 'c" where
  \<comment> \<open>the body of \<open>addIngress\<close> after the test of the ingress class\<close>
  "addIngress_admitted H add i c =
     (case Spec_Backend i of
        Some b \<Rightarrow>
          (case hashname H 60 [ing_Namespace i, ing_Name i] of
             Inl e \<Rightarrow> Inl e
           | Inr name \<Rightarrow>
              (case ingressBackendToClusterName H i b of
                 Inl e \<Rightarrow> Inl e
               | Inr cl \<Rightarrow>
                  Inr (add \<lparr>Name = name, Domains = [''*''],
                             Routes = [\<lparr>Match = prefixmatch ''/'', Action = clusteraction cl\<rparr>]\<rparr>
                         c)))
      | None \<Rightarrow> addIngress_rules H add i (Spec_Rules i) c)"

definition addIngress ::
  "(string \<Rightarrow> string) \<Rightarrow> (route_VirtualHost \<Rightarrow> 'c \<Rightarrow> 'c) \<Rightarrow> IngressObject \<Rightarrow> 'c \<Rightarrow> error + 'c" where
  "addIngress H add i c =
     (case ing_Annotations i ''kubernetes.io/ingress.class'' of
        Some class \<Rightarrow> if class \<noteq> ''contour'' then Inr c else addIngress_admitted H add i c
      | None \<Rightarrow> addIngress_admitted H add i c)"

subsection \<open>Reading the translator's output\<close>

text \<open>
  \<open>translated_path H i p r\<close>: the route \<open>r\<close> is the translation of the path \<open>p\<close> of the
  Ingress \<open>i\<close>. Its match is the catch-all prefix \<open>/\<close> for the empty path, a prefix
  match for a path without any of the characters \<open>[\<close>, \<open>(\<close>, \<open>*\<close> and backslash, and a
  regex match otherwise; its action is the plain cluster action for the cluster named
  after the namespace of the Ingress and the service and port of the path's backend.
  \<open>translated_rule H i rule v\<close>: the virtual host \<open>v\<close> is the translation of the rule
  \<open>rule\<close>, which has HTTP paths: it is named after the Ingress and the host of the rule,
  its only domain is that host, and its routes are the translations of the paths, in
  their order.
\<close>

definition translated_path ::
  "(string \<Rightarrow> string) \<Rightarrow> IngressObject \<Rightarrow> HTTPIngressPath \<Rightarrow> route_Route \<Rightarrow> bool" where
  "translated_path H i p r \<longleftrightarrow>
     Match r =
       (if Path p = '''' then RouteMatch_Prefix ''/''
        else if set (Path p) \<inter> {CHR ''['', CHR ''('', CHR ''*'', CHR 0x5C} = {}
        then RouteMatch_Prefix (Path p)
        else RouteMatch_Regex (Path p))
     \<and> (case hashname H 60 [ing_Namespace i, ServiceName (Backend p),
                             IntOrString_String (ServicePort (Backend p))] of
          Inl e \<Rightarrow> False
        | Inr cl \<Rightarrow>
            Action r = Route_Route \<lparr>Cluster = cl, UseWebsocket = None, Timeout = None\<rparr>)"

definition translated_rule ::
  "(string \<Rightarrow> string) \<Rightarrow> IngressObject \<Rightarrow> IngressRule \<Rightarrow> route_VirtualHost \<Rightarrow> bool" where
  "translated_rule H i rule v \<longleftrightarrow>
     hashname H 60 [ing_Namespace i, ing_Name i, Host rule] = Inr (Name v)
     \<and> Domains v = [Host rule]
     \<and> (case HTTP rule of
          None \<Rightarrow> False
        | Some paths \<Rightarrow> list_all2 (translated_path H i) paths (Routes v))"

section \<open>The request-timeout annotation (getRequestTimeout)\<close>

text \<open>
  \<open>time.ParseDuration\<close> belongs to the Go standard library and is a parameter: it
  returns an error or a duration.
\<close>

definition requestTimeout :: string where
  "requestTimeout = ''contour.heptio.com/request-timeout''"

definition infiniteTimeout :: Duration where
  "infiniteTimeout = 0"

definition getRequestTimeout ::
  "(string \<Rightarrow> error + Duration) \<Rightarrow> (string \<rightharpoonup> string) \<Rightarrow> Duration \<times> bool" where
  "getRequestTimeout ParseDuration annotations =
     (case annotations requestTimeout of
        None \<Rightarrow> (0, False)
      | Some timeoutStr \<Rightarrow>
          if timeoutStr = '''' then (0, False)
          else if timeoutStr = ''infinity'' then (infiniteTimeout, True)
          else (case ParseDuration timeoutStr of
                  Inl err \<Rightarrow> (infiniteTimeout, True)
                | Inr timeoutParsed \<Rightarrow> (timeoutParsed, True)))"

section \<open>The event handler (internal/contour/adapter.go, internal/contour/k8s.go)\<close>

text \<open>
  \<open>DAGAdapter\<close> and \<open>ResourceEventHandler\<close> have the same \<open>OnAdd\<close>, \<open>OnUpdate\<close>,
  \<open>OnDelete\<close>, \<open>validIngressClass\<close> and \<open>ingressClass\<close>. An object is its dynamic type
  and its metadata. \<open>Insert\<close> and \<open>Remove\<close> of package \<open>dag\<close> and the handler's
  \<open>update\<close> are parameters acting on the state of the handler.
\<close>

datatype Kind = Ingress | IngressRoute | Service | Endpoints | Secret | OtherKind

record Object =
  kind :: Kind
  Namespace :: string
  ObjectName :: string
  Annotations :: "string \<rightharpoonup> string"

record 'st Handler =
  IngressClass :: string
  Insert :: "Object \<Rightarrow> 'st \<Rightarrow> 'st"
  Remove :: "Object \<Rightarrow> 'st \<Rightarrow> 'st"
  update :: "'st \<Rightarrow> 'st"

definition DEFAULT_INGRESS_CLASS :: string where
  "DEFAULT_INGRESS_CLASS = ''contour''"

definition ingressClass :: "'st Handler \<Rightarrow> string" where
  "ingressClass d = (if IngressClass d \<noteq> '''' then IngressClass d else DEFAULT_INGRESS_CLASS)"

definition validIngressClass :: "'st Handler \<Rightarrow> Object \<Rightarrow> bool" where
  "validIngressClass d obj =
     (if kind obj \<noteq> Ingress then True
      else (case Annotations obj ''kubernetes.io/ingress.class'' of
              None \<Rightarrow> True
            | Some class \<Rightarrow> class = ingressClass d))"

definition OnDelete :: "'st Handler \<Rightarrow> Object \<Rightarrow> 'st \<Rightarrow> 'st" where
  "OnDelete d obj st = update d (Remove d obj st)"

definition OnAdd :: "'st Handler \<Rightarrow> Object \<Rightarrow> 'st \<Rightarrow> 'st" where
  "OnAdd d obj st =
     (if \<not> validIngressClass d obj then st else update d (Insert d obj st))"

definition OnUpdate :: "'st Handler \<Rightarrow> Object \<Rightarrow> Object \<Rightarrow> 'st \<Rightarrow> 'st" where
  "OnUpdate d oldObj newObj st =
     (let oldValid = validIngressClass d oldObj; newValid = validIngressClass d newObj
      in if \<not> oldValid \<and> \<not> newValid then st
         else if oldValid \<and> \<not> newValid then OnDelete d oldObj st
         else update d (Insert d newObj (Remove d oldObj st)))"

section \<open>Theorems\<close>

lemma slice_to_Inr: "0 \<le> k \<Longrightarrow> k \<le> int (length s) \<Longrightarrow> slice_to s k = Inr (take (nat k) s)"
  by (simp add: slice_to_def)

lemma truncate_refines:
  assumes "0 \<le> l"
  shows "truncate_name l s x = Inr (truncate_spec (nat l) s x)"
proof -
  have "nat (l - int (length x) - 1) = nat l - length x - 1"
    using assms by linarith
  then show ?thesis
    using assms by (auto simp: truncate_name_def truncate_spec_def slice_to_def min_go_def)
qed

lemma quo_nonneg: "0 \<le> a \<Longrightarrow> 0 < b \<Longrightarrow> quo a b = Inr (int (nat a div nat b))"
  by (simp add: quo_def zdiv_int nat_div_distrib)

lemma hashname_loop_refines:
  assumes "0 \<le> l" "length h = 64" "k \<le> length s"
  shows "case hashname_loop l h s k of
           Inl e \<Rightarrow> False
         | Inr None \<Rightarrow> hashname_spec_from (nat l) h s k = take (nat l) h
         | Inr (Some r) \<Rightarrow> hashname_spec_from (nat l) h s k = r \<and> int (length r) < l"
  using assms(3)
proof (induction k arbitrary: s)
  case 0
  show ?case by simp
next
  case (Suc n)
  have pos: "0 < int (length s)" using Suc.prems by (cases s) auto
  have q: "quo l (int (length s)) = Inr (int (nat l div length s))"
    using quo_nonneg [OF assms(1) pos] by simp
  have ix: "index_at s (int n) = Inr (s ! n)"
    using Suc.prems by (simp add: index_at_def)
  have sh: "slice_to h shorthash = Inr (take 6 h)"
    using assms(2) by (simp add: slice_to_def shorthash_def)
  have tr: "truncate_name (int (nat l div length s)) (s ! n) (take 6 h)
              = Inr (truncate_spec (nat l div length s) (s ! n) (take 6 h))"
    using truncate_refines [of "int (nat l div length s)"] by simp
  define s' where "s' = s[n := truncate_spec (nat l div length s) (s ! n) (take 6 h)]"
  have len: "n \<le> length s'" using Suc.prems by (simp add: s'_def)
  have cmp: "(int (length (Join s' ''/'')) < l) = (length (Join s' ''/'') < nat l)"
    using assms(1) by linarith
  have spec: "hashname_spec_from (nat l) h s (Suc n) =
      (if length (Join s' ''/'') < nat l then Join s' ''/''
       else hashname_spec_from (nat l) h s' n)"
    by (simp add: s'_def Let_def)
  have code: "hashname_loop l h s (Suc n) =
      (if length (Join s' ''/'') < nat l then Inr (Some (Join s' ''/''))
       else hashname_loop l h s' n)"
    using q ix sh tr cmp by (simp add: s'_def Let_def)
  show ?case
  proof (cases "length (Join s' ''/'') < nat l")
    case True
    then show ?thesis
      using cmp unfolding spec code by simp
  next
    case False
    then show ?thesis
      using Suc.IH [OF len] unfolding spec code by simp
  qed
qed

lemma length_hashname_spec_from: "length (hashname_spec_from L h s k) \<le> L"
  by (induction k arbitrary: s) (auto simp: Let_def)

lemma length_hashname_spec: "length (hashname_spec H L s) \<le> L"
  by (simp add: hashname_spec_def Let_def length_hashname_spec_from)

lemma hashname_refines:
  assumes "hex_digest H" "0 \<le> l"
  shows "hashname H l s = Inr (hashname_spec H (nat l) s)"
proof (cases "int (length (Join s ''/'')) < l")
  case True
  then have "length (Join s ''/'') < nat l" by linarith
  with True show ?thesis
    by (simp add: hashname_def hashname_spec_def Let_def)
next
  case False
  have h: "length (H (Join s ''/'')) = 64"
    using assms(1) by (simp add: hex_digest_def)
  have nl: "\<not> length (Join s ''/'') < nat l"
    using False assms(2) by linarith
  have fall: "slice_to (H (Join s ''/'')) (min_go 64 l) = Inr (take (nat l) (H (Join s ''/'')))"
    using h assms(2) by (auto simp: slice_to_def min_go_def)
  show ?thesis
    using hashname_loop_refines [OF assms(2) h, of "length s" s] False nl fall h
    by (auto simp: hashname_def hashname_spec_def Let_def split: sum.splits option.splits)
qed

lemma hashname_loop_negative: "l < 0 \<Longrightarrow> hashname_loop l h s k \<noteq> Inr (Some r)"
  by (induction k arbitrary: s) (auto simp: Let_def split: sum.splits)

lemma hashname_negative_panics:
  assumes "l < 0"
  shows "\<exists>e. hashname H l s = Inl e"
proof -
  have "slice_to h (min_go (int (length h)) l) = Inl SliceBoundsOutOfRange" for h
    using assms by (simp add: slice_to_def min_go_def)
  then show ?thesis
    using assms hashname_loop_negative [OF assms]
    by (auto simp: hashname_def Let_def split: sum.splits option.splits)
qed

lemma hex_digest_zero_digest: "hex_digest zero_digest"
  by (simp add: hex_digest_def zero_digest_def)

lemma hashname_60_total: "hex_digest H \<Longrightarrow> \<exists>r. hashname H 60 s = Inr r"
  using hashname_refines [of H 60 s] by simp

subsection \<open>C1: the name hasher\<close>

text \<open>
  C1. \<open>hashname(L, s...)\<close> is the reference algorithm of section 4.1 of the
  specification: for every length \<open>L\<close> (a non-negative \<open>l\<close>) and every list of parts it
  returns, without panicking, exactly what \<open>hashname_spec\<close> computes, and that result has at
  most \<open>L\<close> characters. For a negative \<open>l\<close>, which Go's \<open>int\<close> admits and no caller
  passes, the function panics and has no result. The model is a function of the digest
  and its arguments, and both copies of the function have the same text, so the result
  is the same wherever it is computed.
\<close>

theorem hashname_reference_algorithm:
  "hex_digest H \<Longrightarrow>
     (case hashname H l s of
        Inl e \<Rightarrow> l < 0
      | Inr r \<Rightarrow> 0 \<le> l \<and> r = hashname_spec H (nat l) s \<and> int (length r) \<le> l)"
proof (cases "0 \<le> l")
  case True
  assume "hex_digest H"
  then show ?thesis
    using True hashname_refines [of H l s] length_hashname_spec [of H "nat l" s] by simp
next
  case False
  then show ?thesis
    using hashname_negative_panics [of l H s] by auto
qed

theorem hashname_reference_algorithm_witness:
  "hex_digest zero_digest
     \<and> hashname zero_digest 30 [''default'', ''averyveryverylongservicename'', ''8080'']
         = Inr ''default/ave-000000/8080''
     \<and> hashname zero_digest 10 [''default'', ''kuard'', ''8080''] = Inr ''0000000000''
     \<and> hashname zero_digest 60 [''default'', ''kuard'', ''8080''] = Inr ''default/kuard/8080''"
proof -
  have a: "hashname_spec zero_digest (nat 30)
             [''default'', ''averyveryverylongservicename'', ''8080'']
           = ''default/ave-000000/8080''"
    by code_simp
  have b: "hashname_spec zero_digest (nat 10) [''default'', ''kuard'', ''8080'']
           = ''0000000000''"
    by code_simp
  have c: "hashname_spec zero_digest (nat 60) [''default'', ''kuard'', ''8080'']
           = ''default/kuard/8080''"
    by code_simp
  show ?thesis
    using hashname_reference_algorithm [OF hex_digest_zero_digest, of 30
        "[''default'', ''averyveryverylongservicename'', ''8080'']"]
      hashname_reference_algorithm [OF hex_digest_zero_digest, of 10
        "[''default'', ''kuard'', ''8080'']"]
      hashname_reference_algorithm [OF hex_digest_zero_digest, of 60
        "[''default'', ''kuard'', ''8080'']"]
      a b c
    by (simp add: hex_digest_zero_digest split: sum.splits)
qed

subsection \<open>C4: the request-timeout annotation\<close>

text \<open>
  C4. For every annotation map, \<open>getRequestTimeout\<close> reports "not present" when the
  key \<open>contour.heptio.com/request-timeout\<close> is absent or empty; for the value
  \<open>infinity\<close> it reports the infinite timeout as set; for any other value that
  \<open>time.ParseDuration\<close> accepts it reports exactly the parsed duration as set; and for
  any other value that fails to parse it reports the infinite timeout as set, which is
  not 15 seconds.
\<close>

theorem getRequestTimeout_rules:
  "(annotations requestTimeout = None \<or> annotations requestTimeout = Some ''''
       \<longrightarrow> \<not> snd (getRequestTimeout P annotations))
   \<and> (annotations requestTimeout = Some ''infinity''
       \<longrightarrow> getRequestTimeout P annotations = (infiniteTimeout, True))
   \<and> (\<forall>v d. annotations requestTimeout = Some v \<and> v \<noteq> '''' \<and> v \<noteq> ''infinity'' \<and> P v = Inr d
       \<longrightarrow> getRequestTimeout P annotations = (d, True))
   \<and> (\<forall>v e. annotations requestTimeout = Some v \<and> v \<noteq> '''' \<and> v \<noteq> ''infinity'' \<and> P v = Inl e
       \<longrightarrow> getRequestTimeout P annotations = (infiniteTimeout, True)
           \<and> fst (getRequestTimeout P annotations) \<noteq> 15 * 1000000000)"
  by (auto simp: getRequestTimeout_def infiniteTimeout_def)

theorem getRequestTimeout_rules_witness:
  "\<not> snd (getRequestTimeout (\<lambda>s. if s = ''5s'' then Inr 5000000000 else Inl ParseError) Map.empty)
   \<and> \<not> snd (getRequestTimeout (\<lambda>s. if s = ''5s'' then Inr 5000000000 else Inl ParseError)
              [requestTimeout \<mapsto> ''''])
   \<and> getRequestTimeout (\<lambda>s. if s = ''5s'' then Inr 5000000000 else Inl ParseError)
        [requestTimeout \<mapsto> ''infinity''] = (infiniteTimeout, True)
   \<and> getRequestTimeout (\<lambda>s. if s = ''5s'' then Inr 5000000000 else Inl ParseError)
        [requestTimeout \<mapsto> ''5s''] = (5000000000, True)
   \<and> getRequestTimeout (\<lambda>s. if s = ''5s'' then Inr 5000000000 else Inl ParseError)
        [requestTimeout \<mapsto> ''5 parsecs''] = (infiniteTimeout, True)"
  using getRequestTimeout_rules [of Map.empty "\<lambda>s. if s = ''5s'' then Inr 5000000000 else Inl ParseError"]
    getRequestTimeout_rules [of "[requestTimeout \<mapsto> '''']"
      "\<lambda>s. if s = ''5s'' then Inr 5000000000 else Inl ParseError"]
    getRequestTimeout_rules [of "[requestTimeout \<mapsto> ''infinity'']"
      "\<lambda>s. if s = ''5s'' then Inr 5000000000 else Inl ParseError"]
    getRequestTimeout_rules [of "[requestTimeout \<mapsto> ''5s'']"
      "\<lambda>s. if s = ''5s'' then Inr 5000000000 else Inl ParseError"]
    getRequestTimeout_rules [of "[requestTimeout \<mapsto> ''5 parsecs'']"
      "\<lambda>s. if s = ''5s'' then Inr 5000000000 else Inl ParseError"]
  by simp

subsection \<open>C5: the timeout of a cluster action\<close>

text \<open>
  C5. The cluster action that \<open>actionroute\<close> builds for a DAG route with timeout \<open>t\<close>
  has no timeout field when \<open>t = 0\<close>, a timeout field of zero (infinite for Envoy)
  when \<open>t\<close> is the sentinel \<open>-1\<close>, and a timeout field of exactly \<open>t\<close> for every other
  \<open>t\<close>. This is the action of the route that the visitor emits for a DAG route with
  a service, in \<open>ingress_https\<close> always and in \<open>ingress_http\<close> unless the route is
  upgraded to HTTPS (then the action is a redirect).
\<close>

theorem actionroute_timeout:
  "hex_digest H \<Longrightarrow>
     (\<exists>a. actionroute H namespace name port ws t = Inr a
        \<and> Timeout a = (if t = 0 then None else if t = - 1 then Some 0 else Some t))
     \<and> (List.map_filter service_of children = (namespace, name, port) # rest \<longrightarrow>
          (\<exists>a. visit_https_route H (dag_Route prefix ws t upgrade children)
                 = Inr (Some \<lparr>Match = prefixmatch prefix, Action = Route_Route a\<rparr>)
             \<and> Timeout a = (if t = 0 then None else if t = - 1 then Some 0 else Some t))
          \<and> (\<not> upgrade \<longrightarrow>
               (\<exists>a. visit_http_route H (dag_Route prefix ws t upgrade children)
                      = Inr (Some \<lparr>Match = prefixmatch prefix, Action = Route_Route a\<rparr>)
                  \<and> Timeout a = (if t = 0 then None else if t = - 1 then Some 0 else Some t))))"
proof -
  assume "hex_digest H"
  then obtain c where "hashname H 60 [namespace, name, FormatInt port] = Inr c"
    using hashname_60_total by blast
  then have "\<exists>a. actionroute H namespace name port ws t = Inr a
        \<and> Timeout a = (if t = 0 then None else if t = - 1 then Some 0 else Some t)"
    by (simp add: actionroute_def Let_def)
  then show ?thesis
    by (auto simp: Let_def)
qed

theorem actionroute_timeout_witness:
  "hex_digest zero_digest
   \<and> (\<exists>a. actionroute zero_digest ''default'' ''kuard'' 8080 False 0 = Inr a \<and> Timeout a = None)
   \<and> (\<exists>a. actionroute zero_digest ''default'' ''kuard'' 8080 False (- 1) = Inr a
          \<and> Timeout a = Some 0)
   \<and> (\<exists>a. actionroute zero_digest ''default'' ''kuard'' 8080 True 5000000000 = Inr a
          \<and> Timeout a = Some 5000000000)
   \<and> (\<exists>a. visit_http_route zero_digest
            (dag_Route ''/'' False (- 1) False [dag_Service ''default'' ''kuard'' 8080])
          = Inr (Some \<lparr>Match = prefixmatch ''/'', Action = Route_Route a\<rparr>)
          \<and> Timeout a = Some 0)"
  using actionroute_timeout [OF hex_digest_zero_digest, of "''default''" "''kuard''" 8080 False 0
      "[dag_Service ''default'' ''kuard'' 8080]" "[]" "''/''" False]
    actionroute_timeout [OF hex_digest_zero_digest, of "''default''" "''kuard''" 8080 False "- 1"
      "[dag_Service ''default'' ''kuard'' 8080]" "[]" "''/''" False]
    actionroute_timeout [OF hex_digest_zero_digest, of "''default''" "''kuard''" 8080 True 5000000000
      "[dag_Service ''default'' ''kuard'' 8080]" "[]" "''/''" False]
  by (simp add: hex_digest_zero_digest)

subsection \<open>C7: the ingress class of an Ingress\<close>

lemma IndexAny_from_none:
  "IndexAny_from k s chars = - 1 \<longleftrightarrow> set s \<inter> set chars = {}"
  by (induction s arbitrary: k) auto

lemma pathToRouteMatch_cases:
  "pathToRouteMatch p =
     (if Path p = '''' then RouteMatch_Prefix ''/''
      else if set (Path p) \<inter> {CHR ''['', CHR ''('', CHR ''*'', CHR 0x5C} = {}
      then RouteMatch_Prefix (Path p)
      else RouteMatch_Regex (Path p))"
proof -
  have "set (''[(*'' @ [CHR 0x5C]) = {CHR ''['', CHR ''('', CHR ''*'', CHR 0x5C}"
    by simp
  then show ?thesis
    by (simp only: pathToRouteMatch_def IndexAny_def IndexAny_from_none prefixmatch_def
        regexmatch_def)
qed

lemma path_routes_translated:
  assumes "hex_digest H"
  shows "\<exists>rs. path_routes H i ps = Inr rs \<and> list_all2 (translated_path H i) ps rs"
proof (induction ps)
  case Nil
  then show ?case by simp
next
  case (Cons p ps)
  obtain cl where cl: "hashname H 60 [ing_Namespace i, ServiceName (Backend p),
      IntOrString_String (ServicePort (Backend p))] = Inr cl"
    using hashname_60_total [OF assms] by blast
  obtain rs where rs: "path_routes H i ps = Inr rs" "list_all2 (translated_path H i) ps rs"
    using Cons by blast
  have "path_routes H i (p # ps)
      = Inr (\<lparr>Match = pathToRouteMatch p, Action = clusteraction cl\<rparr> # rs)"
    using cl rs(1) by (simp add: ingressBackendToClusterName_def Let_def)
  moreover have "translated_path H i p \<lparr>Match = pathToRouteMatch p, Action = clusteraction cl\<rparr>"
    using cl by (simp add: translated_path_def pathToRouteMatch_cases clusteraction_def)
  ultimately show ?case using rs(2) by simp
qed

lemma addIngress_rules_translated:
  assumes "hex_digest H"
  shows "\<exists>vs. list_all2 (translated_rule H i) (takeWhile (\<lambda>rule. HTTP rule \<noteq> None) rules) vs
           \<and> addIngress_rules H add i rules c = Inr (fold add vs c)"
proof (induction rules arbitrary: c)
  case Nil
  then show ?case by simp
next
  case (Cons rule rules)
  obtain name where name: "hashname H 60 [ing_Namespace i, ing_Name i, Host rule] = Inr name"
    using hashname_60_total [OF assms] by blast
  show ?case
  proof (cases "HTTP rule")
    case None
    then show ?thesis using name by simp
  next
    case (Some paths)
    obtain rs where rs: "path_routes H i paths = Inr rs"
        "list_all2 (translated_path H i) paths rs"
      using path_routes_translated [OF assms] by blast
    define v where "v = \<lparr>Name = name, Domains = [Host rule], Routes = rs\<rparr>"
    obtain vs where vs:
        "list_all2 (translated_rule H i) (takeWhile (\<lambda>rule. HTTP rule \<noteq> None) rules) vs"
        "addIngress_rules H add i rules (add v c) = Inr (fold add vs (add v c))"
      using Cons [of "add v c"] by blast
    have "translated_rule H i rule v"
      using name Some rs(2) by (simp add: translated_rule_def v_def)
    then have "list_all2 (translated_rule H i)
        (takeWhile (\<lambda>rule. HTTP rule \<noteq> None) (rule # rules)) (v # vs)"
      using vs(1) Some by simp
    moreover have "addIngress_rules H add i (rule # rules) c = Inr (fold add (v # vs) c)"
      using name Some rs(1) vs(2) by (simp add: v_def)
    ultimately show ?thesis by blast
  qed
qed

lemma addIngress_admitted_backend:
  assumes "hex_digest H" "Spec_Backend i = Some b"
  shows "\<exists>name cl. hashname H 60 [ing_Namespace i, ing_Name i] = Inr name
     \<and> hashname H 60 [ing_Namespace i, ServiceName b, IntOrString_String (ServicePort b)] = Inr cl
     \<and> addIngress_admitted H add i c
       = Inr (add \<lparr>Name = name, Domains = [''*''],
                   Routes = [\<lparr>Match = RouteMatch_Prefix ''/'',
                              Action = Route_Route
                                \<lparr>Cluster = cl, UseWebsocket = None, Timeout = None\<rparr>\<rparr>]\<rparr> c)"
proof -
  obtain name where name: "hashname H 60 [ing_Namespace i, ing_Name i] = Inr name"
    using hashname_60_total [OF assms(1)] by blast
  obtain cl where cl:
      "hashname H 60 [ing_Namespace i, ServiceName b, IntOrString_String (ServicePort b)] = Inr cl"
    using hashname_60_total [OF assms(1)] by blast
  show ?thesis
    using name cl assms(2)
    by (simp add: addIngress_admitted_def ingressBackendToClusterName_def prefixmatch_def
        clusteraction_def)
qed

text \<open>
  C7. An Ingress delivered to \<open>OnAdd\<close> is inserted and the update is triggered if and
  only if its \<open>kubernetes.io/ingress.class\<close> annotation is absent or equal to the
  configured class, which is \<open>contour\<close> when the handler's \<open>IngressClass\<close> is empty;
  any other Ingress leaves the state as it was. \<open>Translator.addIngress\<close>, which has no
  configured class, translates the Ingress if and only if the annotation is absent or
  equal to \<open>contour\<close> and leaves the cache as it was otherwise. An Ingress it admits
  reaches \<open>VirtualHostCache.Add\<close>: with a default backend the catch-all virtual host
  \<open>*\<close> with the single route \<open>/\<close> to the backend's cluster is added; without one, the
  rules up to the first rule that lacks HTTP paths each add their virtual host, in
  order.
\<close>

theorem OnAdd_ingress_class:
  "kind obj = Ingress \<Longrightarrow>
     (validIngressClass d obj \<longleftrightarrow>
        (Annotations obj ''kubernetes.io/ingress.class'' = None
         \<or> Annotations obj ''kubernetes.io/ingress.class'' = Some (ingressClass d)))
     \<and> ingressClass d = (if IngressClass d = '''' then ''contour'' else IngressClass d)
     \<and> OnAdd d obj st =
         (if Annotations obj ''kubernetes.io/ingress.class'' = None
             \<or> Annotations obj ''kubernetes.io/ingress.class'' = Some (ingressClass d)
          then update d (Insert d obj st) else st)
     \<and> addIngress H add i c =
         (if ing_Annotations i ''kubernetes.io/ingress.class'' = None
             \<or> ing_Annotations i ''kubernetes.io/ingress.class'' = Some ''contour''
          then addIngress_admitted H add i c else Inr c)
     \<and> (hex_digest H
          \<and> (ing_Annotations i ''kubernetes.io/ingress.class'' = None
             \<or> ing_Annotations i ''kubernetes.io/ingress.class'' = Some ''contour'')
        \<longrightarrow>
          (\<forall>b. Spec_Backend i = Some b \<longrightarrow>
             (\<exists>name cl.
                hashname H 60 [ing_Namespace i, ing_Name i] = Inr name
                \<and> hashname H 60 [ing_Namespace i, ServiceName b,
                                IntOrString_String (ServicePort b)] = Inr cl
                \<and> addIngress H add i c
                  = Inr (add \<lparr>Name = name, Domains = [''*''],
                              Routes = [\<lparr>Match = RouteMatch_Prefix ''/'',
                                         Action = Route_Route
                                           \<lparr>Cluster = cl, UseWebsocket = None,
                                             Timeout = None\<rparr>\<rparr>]\<rparr> c)))
          \<and> (Spec_Backend i = None \<longrightarrow>
               (\<exists>vs. list_all2 (translated_rule H i)
                       (takeWhile (\<lambda>rule. HTTP rule \<noteq> None) (Spec_Rules i)) vs
                  \<and> addIngress H add i c = Inr (fold add vs c))))"
proof -
  assume k: "kind obj = Ingress"
  have handler: "(validIngressClass d obj \<longleftrightarrow>
        (Annotations obj ''kubernetes.io/ingress.class'' = None
         \<or> Annotations obj ''kubernetes.io/ingress.class'' = Some (ingressClass d)))
     \<and> ingressClass d = (if IngressClass d = '''' then ''contour'' else IngressClass d)
     \<and> OnAdd d obj st =
         (if Annotations obj ''kubernetes.io/ingress.class'' = None
             \<or> Annotations obj ''kubernetes.io/ingress.class'' = Some (ingressClass d)
          then update d (Insert d obj st) else st)"
    using k
    by (auto simp: validIngressClass_def ingressClass_def OnAdd_def DEFAULT_INGRESS_CLASS_def
        split: option.splits)
  have guard: "addIngress H add i c =
         (if ing_Annotations i ''kubernetes.io/ingress.class'' = None
             \<or> ing_Annotations i ''kubernetes.io/ingress.class'' = Some ''contour''
          then addIngress_admitted H add i c else Inr c)"
    by (auto simp: addIngress_def split: option.splits)
  have rules: "Spec_Backend i = None \<Longrightarrow>
      addIngress_admitted H add i c = addIngress_rules H add i (Spec_Rules i) c"
    by (simp add: addIngress_admitted_def)
  have admitted: "hex_digest H
          \<and> (ing_Annotations i ''kubernetes.io/ingress.class'' = None
             \<or> ing_Annotations i ''kubernetes.io/ingress.class'' = Some ''contour'')
        \<longrightarrow>
          (\<forall>b. Spec_Backend i = Some b \<longrightarrow>
             (\<exists>name cl.
                hashname H 60 [ing_Namespace i, ing_Name i] = Inr name
                \<and> hashname H 60 [ing_Namespace i, ServiceName b,
                                IntOrString_String (ServicePort b)] = Inr cl
                \<and> addIngress H add i c
                  = Inr (add \<lparr>Name = name, Domains = [''*''],
                              Routes = [\<lparr>Match = RouteMatch_Prefix ''/'',
                                         Action = Route_Route
                                           \<lparr>Cluster = cl, UseWebsocket = None,
                                             Timeout = None\<rparr>\<rparr>]\<rparr> c)))
          \<and> (Spec_Backend i = None \<longrightarrow>
               (\<exists>vs. list_all2 (translated_rule H i)
                       (takeWhile (\<lambda>rule. HTTP rule \<noteq> None) (Spec_Rules i)) vs
                  \<and> addIngress H add i c = Inr (fold add vs c)))"
  proof (intro impI conjI allI)
    fix b
    assume h: "hex_digest H
          \<and> (ing_Annotations i ''kubernetes.io/ingress.class'' = None
             \<or> ing_Annotations i ''kubernetes.io/ingress.class'' = Some ''contour'')"
      and b: "Spec_Backend i = Some b"
    have "addIngress H add i c = addIngress_admitted H add i c"
      using guard h by simp
    then show "\<exists>name cl.
                hashname H 60 [ing_Namespace i, ing_Name i] = Inr name
                \<and> hashname H 60 [ing_Namespace i, ServiceName b,
                                IntOrString_String (ServicePort b)] = Inr cl
                \<and> addIngress H add i c
                  = Inr (add \<lparr>Name = name, Domains = [''*''],
                              Routes = [\<lparr>Match = RouteMatch_Prefix ''/'',
                                         Action = Route_Route
                                           \<lparr>Cluster = cl, UseWebsocket = None,
                                             Timeout = None\<rparr>\<rparr>]\<rparr> c)"
      using addIngress_admitted_backend [of H i b add c] h b by simp
  next
    assume h: "hex_digest H
          \<and> (ing_Annotations i ''kubernetes.io/ingress.class'' = None
             \<or> ing_Annotations i ''kubernetes.io/ingress.class'' = Some ''contour'')"
      and b: "Spec_Backend i = None"
    have "addIngress H add i c = addIngress_rules H add i (Spec_Rules i) c"
      using guard h rules [OF b] by simp
    then show "\<exists>vs. list_all2 (translated_rule H i)
                       (takeWhile (\<lambda>rule. HTTP rule \<noteq> None) (Spec_Rules i)) vs
                  \<and> addIngress H add i c = Inr (fold add vs c)"
      using addIngress_rules_translated [of H i "Spec_Rules i" add c] h by simp
  qed
  show ?thesis
    using handler guard admitted by blast
qed

theorem OnAdd_ingress_class_witness:
  "kind \<lparr>kind = Ingress, Namespace = ''default'', ObjectName = ''kuard'',
          Annotations = [''kubernetes.io/ingress.class'' \<mapsto> ''contour'']\<rparr> = Ingress
   \<and> hex_digest zero_digest
   \<and> OnAdd \<lparr>IngressClass = '''', Insert = (#), Remove = removeAll, update = id\<rparr>
        \<lparr>kind = Ingress, Namespace = ''default'', ObjectName = ''kuard'',
          Annotations = [''kubernetes.io/ingress.class'' \<mapsto> ''contour'']\<rparr> []
      = [\<lparr>kind = Ingress, Namespace = ''default'', ObjectName = ''kuard'',
          Annotations = [''kubernetes.io/ingress.class'' \<mapsto> ''contour'']\<rparr>]
   \<and> OnAdd \<lparr>IngressClass = '''', Insert = (#), Remove = removeAll, update = id\<rparr>
        \<lparr>kind = Ingress, Namespace = ''default'', ObjectName = ''kuard'',
          Annotations = [''kubernetes.io/ingress.class'' \<mapsto> ''nginx'']\<rparr> []
      = []
   \<and> OnAdd \<lparr>IngressClass = ''nginx'', Insert = (#), Remove = removeAll, update = id\<rparr>
        \<lparr>kind = Ingress, Namespace = ''default'', ObjectName = ''kuard'',
          Annotations = [''kubernetes.io/ingress.class'' \<mapsto> ''nginx'']\<rparr> []
      = [\<lparr>kind = Ingress, Namespace = ''default'', ObjectName = ''kuard'',
          Annotations = [''kubernetes.io/ingress.class'' \<mapsto> ''nginx'']\<rparr>]
   \<and> OnAdd \<lparr>IngressClass = '''', Insert = (#), Remove = removeAll, update = id\<rparr>
        \<lparr>kind = Ingress, Namespace = ''default'', ObjectName = ''kuard'',
          Annotations = Map.empty\<rparr> []
      = [\<lparr>kind = Ingress, Namespace = ''default'', ObjectName = ''kuard'',
          Annotations = Map.empty\<rparr>]
   \<and> addIngress zero_digest (#)
        \<lparr>ing_Namespace = ''default'', ing_Name = ''kuard'',
          ing_Annotations = [''kubernetes.io/ingress.class'' \<mapsto> ''nginx''],
          Spec_Backend = Some \<lparr>ServiceName = ''kuard'', ServicePort = IntVal 80\<rparr>,
          Spec_TLS = [], Spec_Rules = []\<rparr> []
      = Inr []
   \<and> addIngress zero_digest (#)
        \<lparr>ing_Namespace = ''default'', ing_Name = ''kuard'',
          ing_Annotations = [''kubernetes.io/ingress.class'' \<mapsto> ''contour''],
          Spec_Backend = Some \<lparr>ServiceName = ''kuard'', ServicePort = IntVal 80\<rparr>,
          Spec_TLS = [], Spec_Rules = []\<rparr> []
      = Inr [\<lparr>Name = ''default/kuard'', Domains = [''*''],
               Routes = [\<lparr>Match = RouteMatch_Prefix ''/'',
                          Action = Route_Route
                            \<lparr>Cluster = ''default/kuard/80'', UseWebsocket = None,
                              Timeout = None\<rparr>\<rparr>]\<rparr>]
   \<and> addIngress zero_digest (#)
        \<lparr>ing_Namespace = ''default'', ing_Name = ''kuard'',
          ing_Annotations = Map.empty, Spec_Backend = None, Spec_TLS = [],
          Spec_Rules =
            [\<lparr>Host = ''a.example.com'',
              HTTP = Some [\<lparr>Path = ''/a(b)'',
                             Backend = \<lparr>ServiceName = ''kuard'', ServicePort = IntVal 80\<rparr>\<rparr>,
                           \<lparr>Path = '''',
                             Backend = \<lparr>ServiceName = ''kuard'',
                                         ServicePort = StrVal ''http''\<rparr>\<rparr>]\<rparr>,
             \<lparr>Host = ''b.example.com'',
              HTTP = Some [\<lparr>Path = ''/b'',
                             Backend = \<lparr>ServiceName = ''kuard'', ServicePort = IntVal 80\<rparr>\<rparr>]\<rparr>,
             \<lparr>Host = ''c.example.com'', HTTP = None\<rparr>,
             \<lparr>Host = ''d.example.com'',
              HTTP = Some [\<lparr>Path = ''/d'',
                             Backend = \<lparr>ServiceName = ''kuard'', ServicePort = IntVal 80\<rparr>\<rparr>]\<rparr>]\<rparr>
        []
      = Inr [\<lparr>Name = ''default/kuard/b.example.com'', Domains = [''b.example.com''],
               Routes = [\<lparr>Match = RouteMatch_Prefix ''/b'',
                          Action = Route_Route
                            \<lparr>Cluster = ''default/kuard/80'', UseWebsocket = None,
                              Timeout = None\<rparr>\<rparr>]\<rparr>,
             \<lparr>Name = ''default/kuard/a.example.com'', Domains = [''a.example.com''],
               Routes = [\<lparr>Match = RouteMatch_Regex ''/a(b)'',
                          Action = Route_Route
                            \<lparr>Cluster = ''default/kuard/80'', UseWebsocket = None,
                              Timeout = None\<rparr>\<rparr>,
                         \<lparr>Match = RouteMatch_Prefix ''/'',
                          Action = Route_Route
                            \<lparr>Cluster = ''default/kuard/http'', UseWebsocket = None,
                              Timeout = None\<rparr>\<rparr>]\<rparr>]"
proof -
  have backend: "addIngress_admitted zero_digest (#)
        \<lparr>ing_Namespace = ''default'', ing_Name = ''kuard'',
          ing_Annotations = [''kubernetes.io/ingress.class'' \<mapsto> ''contour''],
          Spec_Backend = Some \<lparr>ServiceName = ''kuard'', ServicePort = IntVal 80\<rparr>,
          Spec_TLS = [], Spec_Rules = []\<rparr> []
      = Inr [\<lparr>Name = ''default/kuard'', Domains = [''*''],
               Routes = [\<lparr>Match = RouteMatch_Prefix ''/'',
                          Action = Route_Route
                            \<lparr>Cluster = ''default/kuard/80'', UseWebsocket = None,
                              Timeout = None\<rparr>\<rparr>]\<rparr>]"
    by (simp add: addIngress_admitted_def hashname_def prefixmatch_def clusteraction_def
        ingressBackendToClusterName_def FormatInt_def decimal.simps)
  have rules: "addIngress_admitted zero_digest (#)
        \<lparr>ing_Namespace = ''default'', ing_Name = ''kuard'',
          ing_Annotations = Map.empty, Spec_Backend = None, Spec_TLS = [],
          Spec_Rules =
            [\<lparr>Host = ''a.example.com'',
              HTTP = Some [\<lparr>Path = ''/a(b)'',
                             Backend = \<lparr>ServiceName = ''kuard'', ServicePort = IntVal 80\<rparr>\<rparr>,
                           \<lparr>Path = '''',
                             Backend = \<lparr>ServiceName = ''kuard'',
                                         ServicePort = StrVal ''http''\<rparr>\<rparr>]\<rparr>,
             \<lparr>Host = ''b.example.com'',
              HTTP = Some [\<lparr>Path = ''/b'',
                             Backend = \<lparr>ServiceName = ''kuard'', ServicePort = IntVal 80\<rparr>\<rparr>]\<rparr>,
             \<lparr>Host = ''c.example.com'', HTTP = None\<rparr>,
             \<lparr>Host = ''d.example.com'',
              HTTP = Some [\<lparr>Path = ''/d'',
                             Backend = \<lparr>ServiceName = ''kuard'', ServicePort = IntVal 80\<rparr>\<rparr>]\<rparr>]\<rparr>
        []
      = Inr [\<lparr>Name = ''default/kuard/b.example.com'', Domains = [''b.example.com''],
               Routes = [\<lparr>Match = RouteMatch_Prefix ''/b'',
                          Action = Route_Route
                            \<lparr>Cluster = ''default/kuard/80'', UseWebsocket = None,
                              Timeout = None\<rparr>\<rparr>]\<rparr>,
             \<lparr>Name = ''default/kuard/a.example.com'', Domains = [''a.example.com''],
               Routes = [\<lparr>Match = RouteMatch_Regex ''/a(b)'',
                          Action = Route_Route
                            \<lparr>Cluster = ''default/kuard/80'', UseWebsocket = None,
                              Timeout = None\<rparr>\<rparr>,
                         \<lparr>Match = RouteMatch_Prefix ''/'',
                          Action = Route_Route
                            \<lparr>Cluster = ''default/kuard/http'', UseWebsocket = None,
                              Timeout = None\<rparr>\<rparr>]\<rparr>]"
    by (simp add: addIngress_admitted_def hashname_def prefixmatch_def regexmatch_def
        clusteraction_def pathToRouteMatch_def IndexAny_def ingressBackendToClusterName_def
        FormatInt_def decimal.simps)
  show ?thesis
    using OnAdd_ingress_class [of "\<lparr>kind = Ingress, Namespace = ''default'', ObjectName = ''kuard'',
          Annotations = [''kubernetes.io/ingress.class'' \<mapsto> ''contour'']\<rparr>"
        "\<lparr>IngressClass = '''', Insert = (#), Remove = removeAll, update = id\<rparr>" "[]"
        zero_digest "(#)"
        "\<lparr>ing_Namespace = ''default'', ing_Name = ''kuard'',
          ing_Annotations = [''kubernetes.io/ingress.class'' \<mapsto> ''nginx''],
          Spec_Backend = Some \<lparr>ServiceName = ''kuard'', ServicePort = IntVal 80\<rparr>,
          Spec_TLS = [], Spec_Rules = []\<rparr>" "[]"]
    OnAdd_ingress_class [of "\<lparr>kind = Ingress, Namespace = ''default'', ObjectName = ''kuard'',
          Annotations = [''kubernetes.io/ingress.class'' \<mapsto> ''nginx'']\<rparr>"
        "\<lparr>IngressClass = '''', Insert = (#), Remove = removeAll, update = id\<rparr>" "[]"
        zero_digest "(#)"
        "\<lparr>ing_Namespace = ''default'', ing_Name = ''kuard'',
          ing_Annotations = [''kubernetes.io/ingress.class'' \<mapsto> ''contour''],
          Spec_Backend = Some \<lparr>ServiceName = ''kuard'', ServicePort = IntVal 80\<rparr>,
          Spec_TLS = [], Spec_Rules = []\<rparr>" "[]"]
    OnAdd_ingress_class [of "\<lparr>kind = Ingress, Namespace = ''default'', ObjectName = ''kuard'',
          Annotations = [''kubernetes.io/ingress.class'' \<mapsto> ''nginx'']\<rparr>"
        "\<lparr>IngressClass = ''nginx'', Insert = (#), Remove = removeAll, update = id\<rparr>" "[]"
        zero_digest "(#)"
        "\<lparr>ing_Namespace = ''default'', ing_Name = ''kuard'',
          ing_Annotations = Map.empty, Spec_Backend = None, Spec_TLS = [],
          Spec_Rules =
            [\<lparr>Host = ''a.example.com'',
              HTTP = Some [\<lparr>Path = ''/a(b)'',
                             Backend = \<lparr>ServiceName = ''kuard'', ServicePort = IntVal 80\<rparr>\<rparr>,
                           \<lparr>Path = '''',
                             Backend = \<lparr>ServiceName = ''kuard'',
                                         ServicePort = StrVal ''http''\<rparr>\<rparr>]\<rparr>,
             \<lparr>Host = ''b.example.com'',
              HTTP = Some [\<lparr>Path = ''/b'',
                             Backend = \<lparr>ServiceName = ''kuard'', ServicePort = IntVal 80\<rparr>\<rparr>]\<rparr>,
             \<lparr>Host = ''c.example.com'', HTTP = None\<rparr>,
             \<lparr>Host = ''d.example.com'',
              HTTP = Some [\<lparr>Path = ''/d'',
                             Backend = \<lparr>ServiceName = ''kuard'', ServicePort = IntVal 80\<rparr>\<rparr>]\<rparr>]\<rparr>"
        "[]"]
    OnAdd_ingress_class [of "\<lparr>kind = Ingress, Namespace = ''default'', ObjectName = ''kuard'',
          Annotations = Map.empty\<rparr>"
        "\<lparr>IngressClass = '''', Insert = (#), Remove = removeAll, update = id\<rparr>" "[]"
        zero_digest "(#)"
        "\<lparr>ing_Namespace = ''default'', ing_Name = ''kuard'',
          ing_Annotations = [''kubernetes.io/ingress.class'' \<mapsto> ''nginx''],
          Spec_Backend = Some \<lparr>ServiceName = ''kuard'', ServicePort = IntVal 80\<rparr>,
          Spec_TLS = [], Spec_Rules = []\<rparr>" "[]"]
    unfolding backend rules
    by (simp add: hex_digest_zero_digest)
qed
subsection \<open>C10: objects of another kind\<close>

text \<open>
  C10. For every object that is not an Ingress, whatever annotations it carries,
  \<open>validIngressClass\<close> is true, \<open>OnAdd\<close> inserts it and triggers the update, and
  \<open>OnUpdate\<close> to it replaces the old object: only an Ingress can be rejected by the
  class filter.
\<close>

theorem validIngressClass_other_kinds:
  "kind obj \<noteq> Ingress \<Longrightarrow>
     validIngressClass d obj
     \<and> OnAdd d obj st = update d (Insert d obj st)
     \<and> OnUpdate d oldObj obj st = update d (Insert d obj (Remove d oldObj st))"
  by (simp add: validIngressClass_def OnAdd_def OnUpdate_def Let_def)

theorem validIngressClass_other_kinds_witness:
  "kind \<lparr>kind = Service, Namespace = ''default'', ObjectName = ''kuard'',
          Annotations = [''kubernetes.io/ingress.class'' \<mapsto> ''nginx'']\<rparr> \<noteq> Ingress
   \<and> validIngressClass \<lparr>IngressClass = '''', Insert = (#), Remove = removeAll, update = id\<rparr>
        \<lparr>kind = Service, Namespace = ''default'', ObjectName = ''kuard'',
          Annotations = [''kubernetes.io/ingress.class'' \<mapsto> ''nginx'']\<rparr>
   \<and> OnAdd \<lparr>IngressClass = '''', Insert = (#), Remove = removeAll, update = id\<rparr>
        \<lparr>kind = Service, Namespace = ''default'', ObjectName = ''kuard'',
          Annotations = [''kubernetes.io/ingress.class'' \<mapsto> ''nginx'']\<rparr> []
      = [\<lparr>kind = Service, Namespace = ''default'', ObjectName = ''kuard'',
          Annotations = [''kubernetes.io/ingress.class'' \<mapsto> ''nginx'']\<rparr>]"
  using validIngressClass_other_kinds [of "\<lparr>kind = Service, Namespace = ''default'',
          ObjectName = ''kuard'',
          Annotations = [''kubernetes.io/ingress.class'' \<mapsto> ''nginx'']\<rparr>"
        "\<lparr>IngressClass = '''', Insert = (#), Remove = removeAll, update = id\<rparr>" "[]"]
  by simp


subsection \<open>The sort of the routes\<close>











subsection \<open>What the route visitor emits\<close>








lemma visit_root_other:
  "VirtualHost_children v = None \<Longrightarrow> SecureVirtualHost_children v = None \<Longrightarrow>
     visit_root H m v = Inr m"
  by (cases v) simp_all





subsection \<open>C8: every emitted route has a service\<close>



subsection \<open>C2: the order of the routes of a virtual host\<close>





subsection \<open>The binary search and the caches\<close>

lemma Search_loop_least:
  "(\<forall>a b. a \<le> b \<and> b < n \<and> f a \<longrightarrow> f b) \<Longrightarrow> i \<le> j \<Longrightarrow> j \<le> n \<Longrightarrow>
     (\<forall>k<i. \<not> f k) \<Longrightarrow> (j < n \<longrightarrow> f j) \<Longrightarrow>
     (\<forall>k<Search_loop i j f. \<not> f k)
       \<and> (Search_loop i j f < n \<longrightarrow> f (Search_loop i j f))
       \<and> Search_loop i j f \<le> n"
proof (induction i j f rule: Search_loop.induct)
  case (1 i j f)
  show ?case
  proof (cases "i < j")
    case False
    then have "Search_loop i j f = i" by (simp add: Search_loop.simps)
    moreover have "i = j" using False "1.prems"(2) by simp
    ultimately show ?thesis using "1.prems" by simp
  next
    case True
    define h where "h = (i + j) div 2"
    have h: "i \<le> h" "h < j" using True by (auto simp: h_def)
    have hd: "h = (i + j) div 2" by (simp add: h_def)
    show ?thesis
    proof (cases "f h")
      case False
      have eq: "Search_loop i j f = Search_loop (h + 1) j f"
        using True False by (subst Search_loop.simps) (simp add: h_def Let_def)
      have low: "\<forall>k<h + 1. \<not> f k"
      proof (intro allI impI)
        fix k assume k: "k < h + 1"
        show "\<not> f k"
        proof
          assume "f k"
          moreover have "k \<le> h" "h < n" using k h "1.prems"(3) by simp_all
          ultimately have "f h" using "1.prems"(1) by blast
          then show False using False by simp
        qed
      qed
      have "h + 1 \<le> j" using h by simp
      then show ?thesis
        using "1.IH"(1) [OF True hd False "1.prems"(1) _ "1.prems"(3) low "1.prems"(5)] eq
        by simp
    next
      case fh: True
      have eq: "Search_loop i j f = Search_loop i h f"
        using True fh by (subst Search_loop.simps) (simp add: h_def Let_def)
      have nn: "\<not> \<not> f h" using fh by simp
      have hn: "h \<le> n" using h "1.prems"(3) by simp
      have fhn: "h < n \<longrightarrow> f h" using fh by simp
      show ?thesis
        using "1.IH"(2) [OF True hd nn "1.prems"(1) h(1) hn "1.prems"(4) fhn] eq
        by simp
    qed
  qed
qed

lemma Sort_sorted: "sorted_wrt (<) (map name vs) \<Longrightarrow> Sort name vs = vs"
  by (simp add: Sort_def sort_key_id_if_sorted strict_sorted_iff)

lemma Search_sorted:
  fixes name :: "'a \<Rightarrow> string" and vs :: "'a list" and x :: string
  assumes "sorted_wrt (<) (map name vs)"
  defines "r \<equiv> Search (length vs) (\<lambda>i. x \<le> name (vs ! i))"
  shows "(\<forall>k<r. name (vs ! k) < x) \<and> (r < length vs \<longrightarrow> x \<le> name (vs ! r)) \<and> r \<le> length vs"
proof -
  have s: "sorted (map name vs)" using assms(1) by (simp add: strict_sorted_iff)
  have mono: "\<forall>a b. a \<le> b \<and> b < length vs \<and> x \<le> name (vs ! a) \<longrightarrow> x \<le> name (vs ! b)"
  proof (intro allI impI)
    fix a b assume h: "a \<le> b \<and> b < length vs \<and> x \<le> name (vs ! a)"
    have "x \<le> name (vs ! a)" using h by simp
    also have "name (vs ! a) \<le> name (vs ! b)"
      using sorted_nth_mono [OF s, of a b] h by simp
    finally show "x \<le> name (vs ! b)" .
  qed
  have "(\<forall>k<r. \<not> x \<le> name (vs ! k)) \<and> (r < length vs \<longrightarrow> x \<le> name (vs ! r)) \<and> r \<le> length vs"
    unfolding r_def Search_def
    by (rule Search_loop_least [OF mono]) simp_all
  then show ?thesis by (simp add: not_le)
qed

lemma strict_nth_less:
  "sorted_wrt (<) (map name vs) \<Longrightarrow> a < b \<Longrightarrow> b < length vs \<Longrightarrow> name (vs ! a) < name (vs ! b)"
  using sorted_wrt_nth_less [of "(<)" "map name vs" a b] by simp

lemma Remove_entry_filter:
  assumes "sorted_wrt (<) (map name vs)"
  shows "Remove_entry name x vs = filter (\<lambda>v. name v \<noteq> x) vs"
proof -
  define r where "r = Search (length vs) (\<lambda>i. x \<le> name (vs ! i))"
  have r: "\<forall>k<r. name (vs ! k) < x" "r < length vs \<longrightarrow> x \<le> name (vs ! r)" "r \<le> length vs"
    using Search_sorted [OF assms, of x] by (simp_all add: r_def)
  have R: "Remove_entry name x vs =
      (if r < length vs \<and> name (vs ! r) = x then take r vs @ drop (r + 1) vs else vs)"
    by (simp add: Remove_entry_def Sort_sorted [OF assms] r_def Let_def)
  have low: "filter (\<lambda>v. name v \<noteq> x) (take r vs) = take r vs"
  proof -
    have "\<forall>v\<in>set (take r vs). name v \<noteq> x"
    proof
      fix v assume "v \<in> set (take r vs)"
      then obtain k where "k < length (take r vs)" "take r vs ! k = v"
        by (auto simp: in_set_conv_nth)
      then have "k < r" "vs ! k = v" by simp_all
      then show "name v \<noteq> x" using r(1) by auto
    qed
    then show ?thesis by (simp add: filter_id_conv)
  qed
  show ?thesis
  proof (cases "r < length vs \<and> name (vs ! r) = x")
    case True
    have high: "filter (\<lambda>v. name v \<noteq> x) (drop (r + 1) vs) = drop (r + 1) vs"
    proof -
      have "\<forall>v\<in>set (drop (r + 1) vs). name v \<noteq> x"
      proof
        fix v assume "v \<in> set (drop (r + 1) vs)"
        then obtain k where k: "k < length (drop (r + 1) vs)" "drop (r + 1) vs ! k = v"
          by (auto simp: in_set_conv_nth)
        then have "r + 1 + k < length vs" "vs ! (r + 1 + k) = v" by simp_all
        then have "name (vs ! r) < name v"
          using strict_nth_less [OF assms, of r "r + 1 + k"] by simp
        then show "name v \<noteq> x" using True by auto
      qed
      then show ?thesis by (simp add: filter_id_conv)
    qed
    have "vs = take r vs @ vs ! r # drop (r + 1) vs"
      using True by (simp add: id_take_nth_drop)
    then have "filter (\<lambda>v. name v \<noteq> x) vs
        = filter (\<lambda>v. name v \<noteq> x) (take r vs @ vs ! r # drop (r + 1) vs)"
      by simp
    also have "\<dots> = take r vs @ drop (r + 1) vs"
      using low high True by simp
    finally show ?thesis using R True by simp
  next
    case False
    have "\<forall>v\<in>set vs. name v \<noteq> x"
    proof
      fix v assume "v \<in> set vs"
      then obtain k where k: "k < length vs" "vs ! k = v" by (auto simp: in_set_conv_nth)
      show "name v \<noteq> x"
      proof (cases "k < r")
        case True
        then show ?thesis using r(1) k by auto
      next
        case kr: False
        then have rl: "r < length vs" using k by simp
        then have ge: "x \<le> name (vs ! r)" using r(2) by simp
        have ne: "name (vs ! r) \<noteq> x" using False rl by simp
        show ?thesis
        proof (cases "k = r")
          case True
          then show ?thesis using ne k by simp
        next
          case False
          then have "r < k" using kr by simp
          then have "name (vs ! r) < name (vs ! k)"
            using strict_nth_less [OF assms, of r k] k by simp
          then show ?thesis using ge k by auto
        qed
      qed
    qed
    then have "filter (\<lambda>v. name v \<noteq> x) vs = vs" by (simp add: filter_id_conv)
    then show ?thesis using R False by simp
  qed
qed

lemma Search_found_iff:
  fixes name :: "'a \<Rightarrow> string" and vs :: "'a list" and x :: string
  assumes "sorted_wrt (<) (map name vs)"
  defines "r \<equiv> Search (length vs) (\<lambda>i. x \<le> name (vs ! i))"
  shows "(r < length vs \<and> name (vs ! r) = x) \<longleftrightarrow> x \<in> name ` set vs"
proof
  assume "r < length vs \<and> name (vs ! r) = x"
  then show "x \<in> name ` set vs" by (metis imageI nth_mem)
next
  assume "x \<in> name ` set vs"
  then have "filter (\<lambda>v. name v \<noteq> x) vs \<noteq> vs"
    by (auto simp: filter_id_conv)
  then have "Remove_entry name x vs \<noteq> vs"
    using Remove_entry_filter [OF assms(1)] by simp
  then show "r < length vs \<and> name (vs ! r) = x"
    by (auto simp: Remove_entry_def Sort_sorted [OF assms(1)] r_def Let_def split: if_splits)
qed

lemma Add_cases:
  assumes "sorted_wrt (<) (map name vs)"
  shows "(name c \<in> name ` set vs \<and>
            (\<exists>r<length vs. name (vs ! r) = name c \<and> Add name c vs = vs[r := c]))
       \<or> (name c \<notin> name ` set vs \<and> Add name c vs = sort_key name (vs @ [c]))"
proof -
  define r where "r = Search (length vs) (\<lambda>i. name c \<le> name (vs ! i))"
  have A: "Add name c vs =
      (if r < length vs \<and> name (vs ! r) = name c then vs[r := c] else Sort name (vs @ [c]))"
    by (simp add: Add_def Sort_sorted [OF assms] r_def Let_def)
  have F: "(r < length vs \<and> name (vs ! r) = name c) \<longleftrightarrow> name c \<in> name ` set vs"
    unfolding r_def by (rule Search_found_iff [OF assms])
  show ?thesis
  proof (cases "name c \<in> name ` set vs")
    case True
    then show ?thesis using A F by auto
  next
    case False
    then show ?thesis using A F by (auto simp: Sort_def)
  qed
qed

lemma Add_sorted:
  assumes "sorted_wrt (<) (map name vs)"
  shows "sorted_wrt (<) (map name (Add name c vs))"
proof -
  consider (replace) r where "r < length vs" "name (vs ! r) = name c" "Add name c vs = vs[r := c]"
    | (append) "name c \<notin> name ` set vs" "Add name c vs = sort_key name (vs @ [c])"
    using Add_cases [OF assms, of c] by blast
  then show ?thesis
  proof cases
    case replace
    have "map name (vs[r := c]) = (map name vs)[r := name (vs ! r)]"
      using replace(2) by (simp add: map_update)
    also have "\<dots> = map name vs"
      using replace(1) by (metis list_update_id nth_map)
    finally show ?thesis using replace(3) assms by simp
  next
    case append
    have d: "distinct (map name (vs @ [c]))"
      using assms append(1) by (auto simp: strict_sorted_iff)
    have "mset (map name (sort_key name (vs @ [c]))) = mset (map name (vs @ [c]))"
      by simp
    then have "distinct (map name (sort_key name (vs @ [c])))"
      using d by (metis mset_eq_imp_distinct_iff)
    then show ?thesis
      using append(2) by (simp add: strict_sorted_iff)
  qed
qed

lemma Remove_entry_sorted:
  assumes "sorted_wrt (<) (map name vs)"
  shows "sorted_wrt (<) (map name (Remove_entry name x vs))"
proof -
  have "map name (filter (\<lambda>v. name v \<noteq> x) vs) = filter (\<lambda>n. n \<noteq> x) (map name vs)"
    by (simp add: filter_map comp_def)
  then show ?thesis
    using assms Remove_entry_filter [OF assms, of x] by (simp add: sorted_wrt_filter)
qed

lemma cache_state_sorted: "cache_state name vs \<Longrightarrow> sorted_wrt (<) (map name vs)"
  by (induction rule: cache_state.induct) (simp_all add: Add_sorted Remove_entry_sorted)

lemma filter_Add:
  assumes "sorted_wrt (<) (map name vs)"
  shows "filter (\<lambda>v. name v \<noteq> name c) (Add name c vs) = filter (\<lambda>v. name v \<noteq> name c) vs"
proof -
  consider (replace) r where "r < length vs" "name (vs ! r) = name c" "Add name c vs = vs[r := c]"
    | (append) "name c \<notin> name ` set vs" "Add name c vs = sort_key name (vs @ [c])"
    using Add_cases [OF assms, of c] by blast
  then show ?thesis
  proof cases
    case replace
    have a: "vs[r := c] = take r vs @ c # drop (r + 1) vs"
      using replace(1) by (simp add: upd_conv_take_nth_drop)
    have b: "vs = take r vs @ vs ! r # drop (r + 1) vs"
      using replace(1) by (simp add: id_take_nth_drop)
    have "filter (\<lambda>v. name v \<noteq> name c) (take r vs @ c # drop (r + 1) vs)
        = filter (\<lambda>v. name v \<noteq> name c) (take r vs @ vs ! r # drop (r + 1) vs)"
      using replace(2) by simp
    then show ?thesis using a b replace(3) by metis
  next
    case append
    have "filter (\<lambda>v. name v \<noteq> name c) (sort_key name (vs @ [c]))
        = sort_key name (filter (\<lambda>v. name v \<noteq> name c) (vs @ [c]))"
      by (rule filter_sort)
    also have "\<dots> = sort_key name (filter (\<lambda>v. name v \<noteq> name c) vs)" by simp
    also have "\<dots> = filter (\<lambda>v. name v \<noteq> name c) (sort_key name vs)"
      by (rule filter_sort [symmetric])
    also have "\<dots> = filter (\<lambda>v. name v \<noteq> name c) vs"
      using Sort_sorted [OF assms] by (simp add: Sort_def)
    finally show ?thesis using append(2) by simp
  qed
qed

lemma Remove_entry_Add:
  assumes "cache_state name vs"
  shows "Remove_entry name (name c) (Add name c vs) = filter (\<lambda>v. name v \<noteq> name c) vs"
  using Remove_entry_filter [OF Add_sorted [OF cache_state_sorted [OF assms]], of "name c" c]
    filter_Add [OF cache_state_sorted [OF assms], of c]
  by simp

lemma Add_first_entry:
  "Add Name \<lparr>Name = ''a'', Domains = [''a.example.com''], Routes = []\<rparr> []
     = [\<lparr>Name = ''a'', Domains = [''a.example.com''], Routes = []\<rparr>]"
  by (simp add: Add_def Sort_def Search_def Search_loop.simps)

lemma cache_state_first_entry:
  "cache_state Name [\<lparr>Name = ''a'', Domains = [''a.example.com''], Routes = []\<rparr>]"
  using cache_Add [OF cache_empty, of Name
      "\<lparr>Name = ''a'', Domains = [''a.example.com''], Routes = []\<rparr>"]
  by (simp add: Add_first_entry)

subsection \<open>C3: Add followed by Remove\<close>

text \<open>
  C3 as stated fails when an entry of the same name is already in the cache: \<open>Add\<close>
  replaces it and \<open>Remove\<close> deletes the replacement, so the second snapshot lacks the
  entry that the first one had. Here the cache holds one virtual host named \<open>a\<close>
  (the state after one \<open>Add\<close> to the empty cache).
\<close>

theorem Add_Remove_present_counterexample:
  "Add Name \<lparr>Name = ''a'', Domains = [''a.example.com''], Routes = []\<rparr> []
     = [\<lparr>Name = ''a'', Domains = [''a.example.com''], Routes = []\<rparr>]
   \<and> Values [\<lparr>Name = ''a'', Domains = [''a.example.com''], Routes = []\<rparr>]
     = [\<lparr>Name = ''a'', Domains = [''a.example.com''], Routes = []\<rparr>]
   \<and> Values (Remove_entry Name ''a''
        (Add Name \<lparr>Name = ''a'', Domains = [''b.example.com''], Routes = []\<rparr>
           [\<lparr>Name = ''a'', Domains = [''a.example.com''], Routes = []\<rparr>]))
     = []"
  by (simp add: Add_def Remove_entry_def Values_def Sort_def Search_def Search_loop.simps)

text \<open>
  C3, amended. In every state a cache can reach and for every entry \<open>X\<close> whose name is
  not in the cache, \<open>Values(); Add(X); Remove(name of X); Values()\<close> yields two equal
  snapshots. When an entry of that name is present, the second snapshot is the first one
  without that entry, as after \<open>Remove\<close> alone.
\<close>

theorem Add_Remove_round_trip:
  "cache_state name vs \<Longrightarrow>
     (name c \<notin> name ` set vs \<longrightarrow>
        Values (Remove_entry name (name c) (Add name c vs)) = Values vs)
     \<and> (name c \<in> name ` set vs \<longrightarrow>
        Values (Remove_entry name (name c) (Add name c vs)) = Values (Remove_entry name (name c) vs)
        \<and> Values (Remove_entry name (name c) (Add name c vs)) \<noteq> Values vs)"
proof -
  assume st: "cache_state name vs"
  have a: "Remove_entry name (name c) (Add name c vs) = filter (\<lambda>v. name v \<noteq> name c) vs"
    by (rule Remove_entry_Add [OF st])
  have b: "Remove_entry name (name c) vs = filter (\<lambda>v. name v \<noteq> name c) vs"
    by (rule Remove_entry_filter [OF cache_state_sorted [OF st]])
  have c: "name c \<notin> name ` set vs \<Longrightarrow> filter (\<lambda>v. name v \<noteq> name c) vs = vs"
    by (metis (mono_tags, lifting) filter_id_conv imageI)
  have d: "name c \<in> name ` set vs \<Longrightarrow> filter (\<lambda>v. name v \<noteq> name c) vs \<noteq> vs"
    by (auto simp: filter_id_conv)
  show ?thesis
    using a b c d by (simp add: Values_def)
qed

theorem Add_Remove_round_trip_witness:
  "cache_state Name [\<lparr>Name = ''a'', Domains = [''a.example.com''], Routes = []\<rparr>]
   \<and> Values (Remove_entry Name ''b''
        (Add Name \<lparr>Name = ''b'', Domains = [''b.example.com''], Routes = []\<rparr>
           [\<lparr>Name = ''a'', Domains = [''a.example.com''], Routes = []\<rparr>]))
     = Values [\<lparr>Name = ''a'', Domains = [''a.example.com''], Routes = []\<rparr>]
   \<and> Values (Remove_entry Name ''a''
        (Add Name \<lparr>Name = ''a'', Domains = [''b.example.com''], Routes = []\<rparr>
           [\<lparr>Name = ''a'', Domains = [''a.example.com''], Routes = []\<rparr>]))
     = Values (Remove_entry Name ''a''
           [\<lparr>Name = ''a'', Domains = [''a.example.com''], Routes = []\<rparr>])"
  using Add_Remove_round_trip [OF cache_state_first_entry,
      of "\<lparr>Name = ''b'', Domains = [''b.example.com''], Routes = []\<rparr>"]
    Add_Remove_round_trip [OF cache_state_first_entry,
      of "\<lparr>Name = ''a'', Domains = [''b.example.com''], Routes = []\<rparr>"]
    cache_state_first_entry
  by simp


subsection \<open>The nonces of a stream\<close>

lemma sint_of_nat_small:
  "i < 2 ^ 63 \<Longrightarrow> sint (of_nat i :: 64 word) = int i"
proof -
  assume a: "i < 2 ^ 63"
  have "int i < 2 ^ 63" using a by (metis of_nat_less_iff of_nat_numeral of_nat_power)
  then have "signed_take_bit 63 (int i) = int i"
    by (intro signed_take_bit_int_eq_self) simp_all
  then show ?thesis by (simp add: signed_of_nat)
qed

lemma FormatInt_0: "FormatInt 0 = ''0''"
  by (simp add: FormatInt_def decimal.simps)

lemma stream_loop_nonces:
  "map Nonce (fst (stream_loop build typeurl lastv nonce evs))
     = map (\<lambda>i. FormatInt (sint (nonce + of_nat i)))
         [1..<Suc (length (fst (stream_loop build typeurl lastv nonce evs)))]"
proof (induction evs arbitrary: lastv nonce)
  case Nil
  then show ?case by simp
next
  case (Cons ev evs)
  show ?case
  proof (cases ev)
    case Done
    then show ?thesis by simp
  next
    case (Notified v w sent)
    show ?thesis
    proof (cases "build w")
      case (Inl e)
      then show ?thesis using Notified by simp
    next
      case (Inr rs)
      show ?thesis
      proof (cases sent)
        case False
        then show ?thesis using Notified Inr by (simp add: Let_def)
      next
        case True
        obtain outs res where r: "stream_loop build typeurl v (nonce + 1) evs = (outs, res)"
          by (cases "stream_loop build typeurl v (nonce + 1) evs") auto
        have ih: "map Nonce outs
            = map (\<lambda>i. FormatInt (sint (nonce + 1 + of_nat i))) [1..<Suc (length outs)]"
          using Cons [of v "nonce + 1"] r by simp
        have shift: "[Suc 0..<Suc (Suc (length outs))] = Suc 0 # map Suc [Suc 0..<Suc (length outs)]"
          by (simp add: map_Suc_upt upt_conv_Cons del: upt_Suc)
        have out: "fst (stream_loop build typeurl lastv nonce (ev # evs))
            = \<lparr>VersionInfo = FormatInt v, Resources = rs, TypeUrl = typeurl,
                Nonce = FormatInt (sint (nonce + 1))\<rparr> # outs"
          using Notified Inr True r by (simp add: Let_def)
        have "map (\<lambda>i. FormatInt (sint (nonce + of_nat i))) [Suc 0..<Suc (Suc (length outs))]
            = FormatInt (sint (nonce + 1))
              # map (\<lambda>i. FormatInt (sint (nonce + 1 + of_nat i))) [Suc 0..<Suc (length outs)]"
          unfolding shift by (simp add: comp_def add.assoc del: upt_Suc)
        then show ?thesis
          using ih out by (simp del: upt_Suc)
      qed
    qed
  qed
qed

lemma length_stream_loop:
  "length (fst (stream_loop build typeurl lastv nonce evs)) \<le> length evs"
proof (induction evs arbitrary: lastv nonce)
  case Nil
  then show ?case by simp
next
  case (Cons ev evs)
  show ?case
  proof (cases ev)
    case Done
    then show ?thesis by simp
  next
    case (Notified v w sent)
    obtain outs res where r: "stream_loop build typeurl v (nonce + 1) evs = (outs, res)"
      by (cases "stream_loop build typeurl v (nonce + 1) evs") auto
    then have "length outs \<le> length evs" using Cons [of v "nonce + 1"] by simp
    then show ?thesis
      using Notified r by (auto simp: Let_def split: sum.splits)
  qed
qed

lemma stream_from_nonces:
  "map Nonce (fst (stream_from n lastv nonce evs))
     = map (\<lambda>i. FormatInt (sint (nonce + of_nat i)))
         [0..<length (fst (stream_from n lastv nonce evs))]"
proof (induction evs arbitrary: lastv nonce)
  case Nil
  then show ?case by simp
next
  case (Cons ev evs)
  show ?case
  proof (cases ev)
    case Done
    then show ?thesis by simp
  next
    case (Notified v w sent)
    obtain out err where f: "fetch n v nonce w = (out, err)"
      by (cases "fetch n v nonce w") auto
    have nonce_out: "Nonce out = FormatInt (sint nonce)"
      using f by (auto simp: fetch_def split: sum.splits)
    show ?thesis
    proof (cases "err = None \<and> sent")
      case False
      then show ?thesis using Notified f by (auto split: option.splits)
    next
      case True
      obtain outs res where r: "stream_from n v (nonce + 1) evs = (outs, res)"
        by (cases "stream_from n v (nonce + 1) evs") auto
      have ih: "map Nonce outs
          = map (\<lambda>i. FormatInt (sint (nonce + 1 + of_nat i))) [0..<length outs]"
        using Cons [of v "nonce + 1"] r by simp
      have shift: "[0..<Suc (length outs)] = 0 # map Suc [0..<length outs]"
        by (simp add: map_Suc_upt upt_conv_Cons del: upt_Suc)
      have out: "fst (stream_from n lastv nonce (ev # evs)) = out # outs"
        using Notified f True r by simp
      have "map (\<lambda>i. FormatInt (sint (nonce + of_nat i))) [0..<Suc (length outs)]
          = FormatInt (sint nonce)
            # map (\<lambda>i. FormatInt (sint (nonce + 1 + of_nat i))) [0..<length outs]"
        unfolding shift by (simp add: comp_def add.assoc del: upt_Suc)
      then show ?thesis
        using ih out nonce_out by (simp del: upt_Suc)
    qed
  qed
qed

lemma length_stream_from:
  "length (fst (stream_from n lastv nonce evs)) \<le> length evs"
proof (induction evs arbitrary: lastv nonce)
  case Nil
  then show ?case by simp
next
  case (Cons ev evs)
  show ?case
  proof (cases ev)
    case Done
    then show ?thesis by simp
  next
    case (Notified v w sent)
    obtain outs res where r: "stream_from n v (nonce + 1) evs = (outs, res)"
      by (cases "stream_from n v (nonce + 1) evs") auto
    then have "length outs \<le> length evs" using Cons [of v "nonce + 1"] by simp
    then show ?thesis
      using Notified r by (auto split: prod.splits option.splits)
  qed
qed

lemma stream_turns_nonces:
  "map Nonce (fst (stream_turns s lastv ts)) = replicate (length (fst (stream_turns s lastv ts))) ''0''"
proof (induction ts arbitrary: lastv)
  case Nil
  then show ?case by simp
next
  case (Cons t ts)
  show ?case
  proof (cases t)
    case RecvFailed
    then show ?thesis by simp
  next
    case (Received req ev)
    show ?thesis
    proof (cases ev)
      case Done
      then show ?thesis using Received by (simp split: option.splits)
    next
      case (Notified v w sent)
      obtain outs res where r: "stream_turns s v ts = (outs, res)"
        by (cases "stream_turns s v ts") auto
      then have "map Nonce outs = replicate (length outs) ''0''"
        using Cons [of v] by simp
      then show ?thesis
        using Received Notified r by (auto simp: Let_def split: option.splits sum.splits)
    qed
  qed
qed

lemma nonces_from_zero:
  assumes "k \<le> 2 ^ 63"
  shows "map (\<lambda>i. FormatInt (sint ((0 :: 64 word) + of_nat i))) [a..<k]
       = map (\<lambda>i. FormatInt (int i)) [a..<k]"
  using assms by (auto simp: sint_of_nat_small)

lemma stream_loop_nonces_from_zero:
  assumes "length evs < 2 ^ 63"
  shows "map Nonce (fst (stream_loop build typeurl 0 0 evs))
       = map (\<lambda>i. FormatInt (int i)) [1..<Suc (length (fst (stream_loop build typeurl 0 0 evs)))]"
proof -
  have "length (fst (stream_loop build typeurl 0 0 evs)) \<le> length evs"
    by (rule length_stream_loop)
  then have "Suc (length (fst (stream_loop build typeurl 0 0 evs))) \<le> 2 ^ 63"
    using assms by linarith
  then show ?thesis
    using stream_loop_nonces [of build typeurl 0 0 evs] nonces_from_zero by metis
qed

lemma two_notifications_lengths:
  "length (fst (CDS_StreamClusters (\<lambda>m. Inr m)
      [Notified 1 \<lparr>cache_values = [''a''], cache_version = 1\<rparr> True,
       Notified 2 \<lparr>cache_values = [''a'', ''b''], cache_version = 2\<rparr> True])) = 2"
  "length (fst (stream (CDS (\<lambda>m. Inr m) (\<lambda>m. m))
      [Notified 1 \<lparr>cache_values = [''a''], cache_version = 1\<rparr> True,
       Notified 2 \<lparr>cache_values = [''a'', ''b''], cache_version = 2\<rparr> True])) = 2"
  by (simp_all add: CDS_StreamClusters_def stream_def fetch_def CDS_def cache_resourcer_def
      Stable_def Let_def)

lemma two_turns_length:
  "length (fst (snd (grpcServer_stream
      \<lparr>count = 0, resources = [ClusterType \<mapsto> CDS (\<lambda>m. Inr m) (\<lambda>m. m)]\<rparr>
      [Received \<lparr>Req_VersionInfo = [], Req_ResourceNames = [], Req_TypeUrl = ClusterType,
                 Req_ResponseNonce = []\<rparr>
         (Notified 1 \<lparr>cache_values = [''a''], cache_version = 1\<rparr> True),
       Received \<lparr>Req_VersionInfo = ''0'', Req_ResourceNames = [], Req_TypeUrl = ClusterType,
                 Req_ResponseNonce = ''0''\<rparr>
         (Notified 2 \<lparr>cache_values = [''a'', ''b''], cache_version = 2\<rparr> True)]))) = 2"
  by (simp add: grpcServer_stream_def CDS_def cache_resourcer_def Stable_def Let_def)

lemma one_listener_response_length:
  "length (fst (LDS_StreamListeners (\<lambda>m. Inr m)
      \<lparr>cache_values = [''a''], cache_version = 1\<rparr> True False)) = 1"
  by (simp add: LDS_StreamListeners_def Let_def)

lemma FormatInt_small: "FormatInt (int 0) = ''0''" "FormatInt (int 1) = ''1''" "FormatInt (int 2) = ''2''"
  "FormatInt 3 = ''3''"
  by (simp_all add: FormatInt_def decimal.simps)

lemma LDS_StreamListeners_nonces:
  "map Nonce (fst (LDS_StreamListeners marshal w sent done))
     = map (\<lambda>i. FormatInt (int i))
         [1..<Suc (length (fst (LDS_StreamListeners marshal w sent done)))]"
  by (auto simp: LDS_StreamListeners_def Let_def split: sum.splits)

subsection \<open>C6: the nonces within one stream\<close>

text \<open>
  C6 as stated fails on \<open>grpcServer.stream\<close>: it writes the nonce \<open>0\<close> into every
  response, so two successive responses of one stream carry the same nonce.
\<close>

theorem stream_constant_nonce_counterexample:
  "map Nonce (fst (snd (grpcServer_stream
      \<lparr>count = 0, resources = [ClusterType \<mapsto> CDS (\<lambda>m. Inr m) (\<lambda>m. m)]\<rparr>
      [Received \<lparr>Req_VersionInfo = [], Req_ResourceNames = [], Req_TypeUrl = ClusterType,
                 Req_ResponseNonce = []\<rparr>
         (Notified 1 \<lparr>cache_values = [''a''], cache_version = 1\<rparr> True),
       Received \<lparr>Req_VersionInfo = ''0'', Req_ResourceNames = [], Req_TypeUrl = ClusterType,
                 Req_ResponseNonce = ''0''\<rparr>
         (Notified 2 \<lparr>cache_values = [''a'', ''b''], cache_version = 2\<rparr> True)])))
   = [''0'', ''0'']"
  by (simp add: grpcServer_stream_def CDS_def cache_resourcer_def Stable_def Let_def)

text \<open>
  C6, amended. Within one stream of fewer than \<open>2^63\<close> events, the loop of
  \<open>CDS.StreamClusters\<close>, \<open>EDS.StreamEndpoints\<close> and \<open>RDS.StreamRoutes\<close> numbers its
  responses 1, 2, 3 and so on, and \<open>stream\<close> of internal/grpc/grpc.go numbers them
  0, 1, 2 and so on: there the nonces of successive responses are the decimal numerals
  of a strictly increasing sequence. \<open>LDS.StreamListeners\<close> sends at most one response,
  with nonce 1. \<open>grpcServer.stream\<close> sends the nonce \<open>0\<close> with every response.
\<close>

theorem stream_nonces:
  "length evs < 2 ^ 63 \<Longrightarrow>
     map Nonce (fst (CDS_StreamClusters marshal evs))
       = map (\<lambda>i. FormatInt (int i)) [1..<Suc (length (fst (CDS_StreamClusters marshal evs)))]
     \<and> map Nonce (fst (stream_loop build typeurl 0 0 evs))
       = map (\<lambda>i. FormatInt (int i)) [1..<Suc (length (fst (stream_loop build typeurl 0 0 evs)))]
     \<and> map Nonce (fst (stream n evs))
       = map (\<lambda>i. FormatInt (int i)) [0..<length (fst (stream n evs))]
     \<and> map Nonce (fst (LDS_StreamListeners marshal w sent done))
       = map (\<lambda>i. FormatInt (int i))
           [1..<Suc (length (fst (LDS_StreamListeners marshal w sent done)))]
     \<and> map Nonce (fst (snd (grpcServer_stream s ts)))
       = replicate (length (fst (snd (grpcServer_stream s ts)))) ''0''"
proof -
  assume len: "length evs < 2 ^ 63"
  have a: "map Nonce (fst (CDS_StreamClusters marshal evs))
       = map (\<lambda>i. FormatInt (int i)) [1..<Suc (length (fst (CDS_StreamClusters marshal evs)))]"
    unfolding CDS_StreamClusters_def by (rule stream_loop_nonces_from_zero [OF len])
  have b: "map Nonce (fst (stream_loop build typeurl 0 0 evs))
       = map (\<lambda>i. FormatInt (int i)) [1..<Suc (length (fst (stream_loop build typeurl 0 0 evs)))]"
    by (rule stream_loop_nonces_from_zero [OF len])
  have "length (fst (stream_from n 0 0 evs)) \<le> length evs"
    by (rule length_stream_from)
  then have "length (fst (stream_from n 0 0 evs)) \<le> 2 ^ 63"
    using len by linarith
  then have c: "map Nonce (fst (stream n evs))
       = map (\<lambda>i. FormatInt (int i)) [0..<length (fst (stream n evs))]"
    unfolding stream_def
    using stream_from_nonces [of n 0 0 evs] nonces_from_zero by metis
  have d: "map Nonce (fst (snd (grpcServer_stream s ts)))
       = replicate (length (fst (snd (grpcServer_stream s ts)))) ''0''"
    by (simp add: grpcServer_stream_def stream_turns_nonces)
  show ?thesis using a b c d LDS_StreamListeners_nonces by blast
qed

theorem stream_nonces_witness:
  "length [Notified 1 \<lparr>cache_values = [''a''], cache_version = 1\<rparr> True,
           Notified 2 \<lparr>cache_values = [''a'', ''b''], cache_version = 2\<rparr> True] < 2 ^ 63
   \<and> map Nonce (fst (CDS_StreamClusters (\<lambda>m. Inr m)
      [Notified 1 \<lparr>cache_values = [''a''], cache_version = 1\<rparr> True,
       Notified 2 \<lparr>cache_values = [''a'', ''b''], cache_version = 2\<rparr> True])) = [''1'', ''2'']
   \<and> map Nonce (fst (stream (CDS (\<lambda>m. Inr m) (\<lambda>m. m))
      [Notified 1 \<lparr>cache_values = [''a''], cache_version = 1\<rparr> True,
       Notified 2 \<lparr>cache_values = [''a'', ''b''], cache_version = 2\<rparr> True])) = [''0'', ''1'']
   \<and> map Nonce (fst (LDS_StreamListeners (\<lambda>m. Inr m)
        \<lparr>cache_values = [''a''], cache_version = 1\<rparr> True False)) = [''1'']
   \<and> map Nonce (fst (snd (grpcServer_stream
      \<lparr>count = 0, resources = [ClusterType \<mapsto> CDS (\<lambda>m. Inr m) (\<lambda>m. m)]\<rparr>
      [Received \<lparr>Req_VersionInfo = [], Req_ResourceNames = [], Req_TypeUrl = ClusterType,
                 Req_ResponseNonce = []\<rparr>
         (Notified 1 \<lparr>cache_values = [''a''], cache_version = 1\<rparr> True),
       Received \<lparr>Req_VersionInfo = ''0'', Req_ResourceNames = [], Req_TypeUrl = ClusterType,
                 Req_ResponseNonce = ''0''\<rparr>
         (Notified 2 \<lparr>cache_values = [''a'', ''b''], cache_version = 2\<rparr> True)])))
     = [''0'', ''0'']"
proof -
  have len: "length [Notified 1 \<lparr>cache_values = [''a''], cache_version = 1\<rparr> True,
           Notified 2 \<lparr>cache_values = [''a'', ''b''], cache_version = (2::int)\<rparr> True] < 2 ^ 63"
    by simp
  have up: "[1..<Suc 2] = [1, 2]" "[0..<2] = [0, Suc 0]" "[1..<Suc 1] = [1]"
    by (simp_all add: upt_conv_Cons)
  show ?thesis
    using stream_nonces [OF len, of "\<lambda>m. Inr m" "\<lambda>w. Inr []" "[]"
        "CDS (\<lambda>m. Inr m) (\<lambda>m. m)"
        "\<lparr>cache_values = [''a''], cache_version = 1\<rparr>" True False
        "\<lparr>count = 0, resources = [ClusterType \<mapsto> CDS (\<lambda>m. Inr m) (\<lambda>m. m)]\<rparr>"
        "[Received \<lparr>Req_VersionInfo = [], Req_ResourceNames = [], Req_TypeUrl = ClusterType,
                 Req_ResponseNonce = []\<rparr>
         (Notified 1 \<lparr>cache_values = [''a''], cache_version = 1\<rparr> True),
       Received \<lparr>Req_VersionInfo = ''0'', Req_ResourceNames = [], Req_TypeUrl = ClusterType,
                 Req_ResponseNonce = ''0''\<rparr>
         (Notified 2 \<lparr>cache_values = [''a'', ''b''], cache_version = 2\<rparr> True)]"]
    unfolding two_notifications_lengths two_turns_length one_listener_response_length up
    using FormatInt_small len by (simp add: numeral_2_eq_2)
qed

subsection \<open>C9: the unary fetch\<close>

text \<open>
  C9 as stated fails: \<open>grpcServer.fetch\<close> answers with the version \<open>0\<close> whatever the
  version of the cache is; here the cache is at version 3.
\<close>

theorem fetch_version_counterexample:
  "grpcServer_fetch
      \<lparr>count = 0, resources = [ClusterType \<mapsto> CDS (\<lambda>m. Inr m) (\<lambda>m. m)]\<rparr>
      \<lparr>cache_values = [''a''], cache_version = 3\<rparr>
      \<lparr>Req_VersionInfo = [], Req_ResourceNames = [], Req_TypeUrl = ClusterType,
        Req_ResponseNonce = []\<rparr>
   = (\<lparr>count = 1, resources = [ClusterType \<mapsto> CDS (\<lambda>m. Inr m) (\<lambda>m. m)]\<rparr>,
      Some \<lparr>VersionInfo = ''0'',
            Resources = [\<lparr>Any_TypeUrl = ClusterType, Any_Value = ''a''\<rparr>],
            TypeUrl = ClusterType, Nonce = ''0''\<rparr>,
      None)
   \<and> FormatInt (cache_version \<lparr>cache_values = [''a''], cache_version = 3\<rparr>) = ''3''"
  by (simp add: grpcServer_fetch_def CDS_def cache_resourcer_def Stable_def Let_def
      FormatInt_small)

text \<open>
  C9, amended. For every request whose type URL has a resourcer, \<open>grpcServer.fetch\<close>
  returns one response that holds the current snapshot (what the resourcer's
  \<open>Resources\<close> gives for the present state of the cache; for \<open>CDS\<close> the marshalled
  entries in the order of their names, for \<open>RDS\<close> the two route configurations with
  their virtual hosts in the order of their names), with \<open>version_info\<close> and \<open>nonce\<close> fixed to
  \<open>0\<close>; if marshalling fails the error is returned, and a type URL without a resourcer
  is answered with an error. \<open>fetch(r, 0, 0)\<close> of internal/grpc/grpc.go answers in the
  same way. The \<open>Fetch\<close> calls of the per-type handlers are unimplemented and return
  an error.
\<close>

theorem fetch_version_info:
  "(resources s (Req_TypeUrl req) = Some r \<and> resourcer_Resources r w = Inr rs \<longrightarrow>
        snd (grpcServer_fetch s w req)
          = (Some \<lparr>VersionInfo = ''0'', Resources = rs, TypeUrl = TypeURL r, Nonce = ''0''\<rparr>,
             None))
   \<and> (resources s (Req_TypeUrl req) = Some r \<and> resourcer_Resources r w = Inl e \<longrightarrow>
        snd (snd (grpcServer_fetch s w req)) = Some e)
   \<and> (resources s (Req_TypeUrl req) = None \<longrightarrow>
        snd (grpcServer_fetch s w req) = (None, Some (NoResourcer (Req_TypeUrl req))))
   \<and> (resourcer_Resources r w = Inr rs \<longrightarrow>
        FetchClusters r w
          = (\<lparr>VersionInfo = ''0'', Resources = rs, TypeUrl = TypeURL r, Nonce = ''0''\<rparr>, None))
   \<and> resourcer_Resources (CDS marshal name) c
        = marshal_each marshal ClusterType (Stable (\<lambda>a b. name a < name b) (cache_values c))
   \<and> resourcer_Resources (RDS marshal_rc vname) (http, https)
        = marshal_each marshal_rc RouteType
            [(''ingress_http'', Stable (\<lambda>a b. vname a < vname b) (cache_values http)),
             (''ingress_https'', Stable (\<lambda>a b. vname a < vname b) (cache_values https))]
   \<and> CDS_FetchClusters req = (None, Some Unimplemented)"
  by (simp add: grpcServer_fetch_def FetchClusters_def fetch_def CDS_def cache_resourcer_def
      RDS_def CDS_FetchClusters_def FormatInt_0 Let_def del: marshal_each.simps)

theorem fetch_version_info_witness:
  "resources \<lparr>count = 0, resources = [ClusterType \<mapsto> CDS (\<lambda>m. Inr m) (\<lambda>m. m)]\<rparr>
      (Req_TypeUrl \<lparr>Req_VersionInfo = [], Req_ResourceNames = [], Req_TypeUrl = ClusterType,
        Req_ResponseNonce = []\<rparr>) = Some (CDS (\<lambda>m. Inr m) (\<lambda>m. m))
   \<and> resourcer_Resources (CDS (\<lambda>m. Inr m) (\<lambda>m. m)) \<lparr>cache_values = [''b'', ''a''], cache_version = 3\<rparr>
      = Inr [\<lparr>Any_TypeUrl = ClusterType, Any_Value = ''a''\<rparr>,
             \<lparr>Any_TypeUrl = ClusterType, Any_Value = ''b''\<rparr>]
   \<and> snd (grpcServer_fetch
      \<lparr>count = 0, resources = [ClusterType \<mapsto> CDS (\<lambda>m. Inr m) (\<lambda>m. m)]\<rparr>
      \<lparr>cache_values = [''b'', ''a''], cache_version = 3\<rparr>
      \<lparr>Req_VersionInfo = [], Req_ResourceNames = [], Req_TypeUrl = ClusterType,
        Req_ResponseNonce = []\<rparr>)
     = (Some \<lparr>VersionInfo = ''0'',
            Resources = [\<lparr>Any_TypeUrl = ClusterType, Any_Value = ''a''\<rparr>,
                         \<lparr>Any_TypeUrl = ClusterType, Any_Value = ''b''\<rparr>],
            TypeUrl = ClusterType, Nonce = ''0''\<rparr>,
        None)"
proof -
  have r: "resourcer_Resources (CDS (\<lambda>m. Inr m) (\<lambda>m. m))
        \<lparr>cache_values = [''b'', ''a''], cache_version = 3\<rparr>
      = Inr [\<lparr>Any_TypeUrl = ClusterType, Any_Value = ''a''\<rparr>,
             \<lparr>Any_TypeUrl = ClusterType, Any_Value = ''b''\<rparr>]"
    by (simp add: CDS_def cache_resourcer_def Stable_def)
  have t: "TypeURL (CDS (\<lambda>m. Inr m) (\<lambda>m. m) :: string Cache resourcer) = ClusterType"
    by (simp add: CDS_def cache_resourcer_def)
  show ?thesis
    using fetch_version_info [of
        "\<lparr>count = 0, resources = [ClusterType \<mapsto> CDS (\<lambda>m. Inr m) (\<lambda>m. m)]\<rparr>"
        "\<lparr>Req_VersionInfo = [], Req_ResourceNames = [], Req_TypeUrl = ClusterType,
          Req_ResponseNonce = []\<rparr>"
        "CDS (\<lambda>m. Inr m) (\<lambda>m. m)"
        "\<lparr>cache_values = [''b'', ''a''], cache_version = 3\<rparr>"
        "[\<lparr>Any_TypeUrl = ClusterType, Any_Value = ''a''\<rparr>,
          \<lparr>Any_TypeUrl = ClusterType, Any_Value = ''b''\<rparr>]"
        MarshalError "\<lambda>m. Inr m" "\<lambda>m. m"
        "\<lparr>cache_values = [''b'', ''a''], cache_version = 3\<rparr>"
        "\<lambda>rc. Inr (fst rc)" "\<lambda>m. m"
        "\<lparr>cache_values = [''b'', ''a''], cache_version = 3\<rparr>"
        "\<lparr>cache_values = [], cache_version = 0\<rparr>"] r t
    by simp
qed


end
